theory Spec2Isabelle
  imports Complex_Main "HOL-Library.Sublist"
begin

section \<open>Python values\<close>

text \<open>
  A Python \<open>str\<close> is a sequence of Unicode code points; \<open>len\<close> counts code points.
  A string is therefore a list of code points (natural numbers), and \<open>u\<close> turns an
  ASCII literal of the source into such a list. The bullet glyph of the source,
  U+2022, is the code point 8226.
\<close>

type_synonym str = "nat list"

definition u :: "string \<Rightarrow> str" where
  "u s = map of_char s"

definition bullet_glyph :: nat where
  "bullet_glyph = 8226"

text \<open>
  What the interpreter supplies and the repository does not define: the Unicode
  tables behind \<open>\s\<close> and \<open>str.strip\<close> (\<open>py_isspace\<close>), behind \<open>\d\<close> (\<open>py_isdigit\<close>)
  and behind \<open>str.lower\<close> (\<open>py_lower\<close>, a function of the whole string: it may change
  the length), the rendering of a float by the format \<open>.2f\<close> (\<open>py_format_2f\<close>), and
  the successive results of \<open>random.random()\<close> (\<open>py_random i\<close> is the result of call
  number \<open>i\<close>). Every function of the model takes them as the parameter \<open>py\<close>.
  Floats are modelled as exact reals.
\<close>

record py =
  py_isspace :: "nat \<Rightarrow> bool"
  py_isdigit :: "nat \<Rightarrow> bool"
  py_lower :: "str \<Rightarrow> str"
  py_format_2f :: "real \<Rightarrow> str"
  py_random :: "nat \<Rightarrow> real"

text \<open>\<open>str.strip()\<close>, \<open>str.lstrip()\<close>, \<open>sep.join(xs)\<close>, \<open>x in s\<close> and \<open>enumerate\<close>.\<close>

definition lstrip :: "py \<Rightarrow> str \<Rightarrow> str" where
  "lstrip py s = dropWhile (py_isspace py) s"

definition strip :: "py \<Rightarrow> str \<Rightarrow> str" where
  "strip py s = rev (dropWhile (py_isspace py) (rev (dropWhile (py_isspace py) s)))"

fun join :: "str \<Rightarrow> str list \<Rightarrow> str" where
  "join sep [] = []"
| "join sep [x] = x"
| "join sep (x # y # ys) = x @ sep @ join sep (y # ys)"

definition contains :: "str \<Rightarrow> str \<Rightarrow> bool" where
  "contains s x = sublist x s"

definition enumerate_list :: "'a list \<Rightarrow> (nat \<times> 'a) list" where
  "enumerate_list xs = zip [0 ..< length xs] xs"

section \<open>The regular expressions of the source\<close>

text \<open>
  The fragment of Python's \<open>re\<close> that the source uses: literals, character classes,
  greedy repetition of a class, sequence, alternation, greedy option, the anchor
  \<open>^\<close> (no MULTILINE flag: start of the string only) and a one-character
  look-behind. A position in the subject is a pair of the characters before it,
  reversed, and the characters after it. \<open>rx_match r z\<close> lists the positions where a
  match of \<open>r\<close> starting at \<open>z\<close> can end, in the order in which the backtracking
  matcher tries them; the head is the match Python reports.
\<close>

datatype rx =
    Lit str
  | Cls "nat \<Rightarrow> bool"
  | Star "nat \<Rightarrow> bool"
  | Seq rx rx
  | Alt rx rx
  | Opt rx
  | Bol
  | Behind "nat \<Rightarrow> bool"

fun rx_match :: "rx \<Rightarrow> str \<times> str \<Rightarrow> (str \<times> str) list" where
  "rx_match (Lit w) (b, s) = (if prefix w s then [(rev w @ b, drop (length w) s)] else [])"
| "rx_match (Cls P) (b, []) = []"
| "rx_match (Cls P) (b, c # cs) = (if P c then [(c # b, cs)] else [])"
| "rx_match (Star P) (b, []) = [(b, [])]"
| "rx_match (Star P) (b, c # cs) =
     (if P c then rx_match (Star P) (c # b, cs) @ [(b, c # cs)] else [(b, c # cs)])"
| "rx_match (Seq r1 r2) z = concat (map (rx_match r2) (rx_match r1 z))"
| "rx_match (Alt r1 r2) z = rx_match r1 z @ rx_match r2 z"
| "rx_match (Opt r) z = rx_match r z @ [z]"
| "rx_match Bol (b, s) = (if b = [] then [(b, s)] else [])"
| "rx_match (Behind P) ([], s) = []"
| "rx_match (Behind P) (c # b, s) = (if P c then [(c # b, s)] else [])"

fun seqs :: "rx list \<Rightarrow> rx" where
  "seqs [] = Lit []"
| "seqs [r] = r"
| "seqs (r # r' # rs) = Seq r (seqs (r' # rs))"

definition Plus :: "(nat \<Rightarrow> bool) \<Rightarrow> rx" where
  "Plus P = Seq (Cls P) (Star P)"

definition one_of :: "str \<Rightarrow> nat \<Rightarrow> bool" where
  "one_of cs c = (c \<in> set cs)"

text \<open>
  The leftmost match at or after a position: the characters skipped before the
  match starts, and the position where the match ends.
\<close>

fun re_search_from :: "rx \<Rightarrow> str \<times> str \<Rightarrow> (str \<times> str \<times> str) option" where
  "re_search_from r (b, []) =
     (case rx_match r (b, []) of [] \<Rightarrow> None | e # _ \<Rightarrow> Some ([], e))"
| "re_search_from r (b, c # cs) =
     (case rx_match r (b, c # cs) of
        e # _ \<Rightarrow> Some ([], e)
      | [] \<Rightarrow> (case re_search_from r (c # b, cs) of
                 None \<Rightarrow> None
               | Some (pre, e) \<Rightarrow> Some (c # pre, e)))"

text \<open>\<open>re.match(r, s)\<close> and \<open>re.search(r, s)\<close>, used by the source as truth values.\<close>

definition re_match :: "rx \<Rightarrow> str \<Rightarrow> bool" where
  "re_match r s = (rx_match r ([], s) \<noteq> [])"

definition re_search :: "rx \<Rightarrow> str \<Rightarrow> bool" where
  "re_search r s = (re_search_from r ([], s) \<noteq> None)"

text \<open>
  \<open>re.split(r, s)\<close> and \<open>re.sub(r, repl, s)\<close> for a pattern without groups. Every
  pattern the source splits or substitutes with consumes at least one character, so
  the scan resumes at the end of each match; the branch for a match that consumes
  nothing is never taken with these patterns (\<open>separators_always_advance\<close> below).
\<close>

function re_split_from :: "rx \<Rightarrow> str \<times> str \<Rightarrow> str list" where
  "re_split_from r (b, s) =
     (case re_search_from r (b, s) of
        None \<Rightarrow> [s]
      | Some (pre, b', s') \<Rightarrow>
          if length s' < length s then pre # re_split_from r (b', s') else [s])"
  by pat_completeness auto
termination
  by (relation "measure (\<lambda>(r, b, s). length s)") auto

definition re_split :: "rx \<Rightarrow> str \<Rightarrow> str list" where
  "re_split r s = re_split_from r ([], s)"

function re_sub_from :: "rx \<Rightarrow> str \<Rightarrow> str \<times> str \<Rightarrow> str" where
  "re_sub_from r repl (b, s) =
     (case re_search_from r (b, s) of
        None \<Rightarrow> s
      | Some (pre, b', s') \<Rightarrow>
          if length s' < length s then pre @ repl @ re_sub_from r repl (b', s') else s)"
  by pat_completeness auto
termination
  by (relation "measure (\<lambda>(r, repl, b, s). length s)") auto

definition re_sub :: "rx \<Rightarrow> str \<Rightarrow> str \<Rightarrow> str" where
  "re_sub r repl s = re_sub_from r repl ([], s)"

text \<open>The patterns, in the order in which they appear in the source.\<close>

definition paragraph_separator :: "py \<Rightarrow> rx" where
  \<comment> \<open>\<open>\n\s*\n\<close>\<close>
  "paragraph_separator py = seqs [Lit [10], Star (py_isspace py), Lit [10]]"

definition sentence_separator :: "py \<Rightarrow> rx" where
  \<comment> \<open>\<open>(?<=[.!?])\s+\<close>\<close>
  "sentence_separator py = seqs [Behind (one_of (u ''.!?'')), Plus (py_isspace py)]"

definition numbered_marker :: "py \<Rightarrow> rx" where
  \<comment> \<open>\<open>^\s*\d+[\.\)]\<close>\<close>
  "numbered_marker py =
     seqs [Bol, Star (py_isspace py), Plus (py_isdigit py), Cls (one_of (u ''.)''))]"

definition glyph_marker :: "py \<Rightarrow> rx" where
  \<comment> \<open>\<open>^\s*[\<bullet>\-\*]\<close>, the first character of the class being U+2022\<close>
  "glyph_marker py = seqs [Bol, Star (py_isspace py), Cls (one_of (bullet_glyph # u ''-*''))]"

definition cleanup_marker :: "py \<Rightarrow> rx" where
  \<comment> \<open>\<open>^\s*[\<bullet>\-\*\d+[\.\)]]\s*\<close>: the class ends at the first \<open>]\<close>, so it holds the glyph,
      \<open>-\<close>, \<open>*\<close>, the digits, \<open>+\<close>, \<open>[\<close>, \<open>.\<close> and \<open>)\<close>, and a literal \<open>]\<close> follows it\<close>
  "cleanup_marker py =
     seqs [Bol, Star (py_isspace py),
           Cls (\<lambda>c. one_of (bullet_glyph # u ''-*'') c \<or> py_isdigit py c \<or> one_of (u ''+[.)'') c),
           Lit (u '']''), Star (py_isspace py)]"

definition percentage :: "py \<Rightarrow> rx" where
  \<comment> \<open>\<open>\d+(\.\d+)?%\<close>\<close>
  "percentage py =
     seqs [Plus (py_isdigit py), Opt (Seq (Lit (u ''.'')) (Plus (py_isdigit py))), Lit (u ''%'')]"

definition money :: "py \<Rightarrow> rx" where
  \<comment> \<open>\<open>\$\d+\<close>\<close>
  "money py = seqs [Lit (u ''$''), Plus (py_isdigit py)]"

definition year :: "py \<Rightarrow> rx" where
  \<comment> \<open>\<open>\d{4}\<close>\<close>
  "year py = seqs [Cls (py_isdigit py), Cls (py_isdigit py), Cls (py_isdigit py), Cls (py_isdigit py)]"

definition large_number :: "py \<Rightarrow> rx" where
  \<comment> \<open>\<open>\d+\s*(million|billion|trillion)\<close>\<close>
  "large_number py =
     seqs [Plus (py_isdigit py), Star (py_isspace py),
           Alt (Lit (u ''million'')) (Alt (Lit (u ''billion'')) (Lit (u ''trillion'')))]"

definition statistic :: "py \<Rightarrow> rx" where
  \<comment> \<open>\<open>\d+%|\d+\.\d+%\<close>\<close>
  "statistic py =
     Alt (seqs [Plus (py_isdigit py), Lit (u ''%'')])
         (seqs [Plus (py_isdigit py), Lit (u ''.''), Plus (py_isdigit py), Lit (u ''%'')])"

definition split_paragraphs :: "py \<Rightarrow> str \<Rightarrow> str list" where
  "split_paragraphs py s = re_split (paragraph_separator py) s"

definition split_sentences :: "py \<Rightarrow> str \<Rightarrow> str list" where
  "split_sentences py s = re_split (sentence_separator py) s"

section \<open>document_processor: bullet extraction\<close>

text \<open>
  The dictionary that \<open>process_document\<close> returns. The three analyses read its
  entry \<open>"text"\<close> only; \<open>doc_chunks\<close> holds what the language model made of the text
  (one value, or one per chunk of 100000 characters), of a type left open.
\<close>

record 'a processed_doc =
  doc_text :: str
  doc_language :: str
  doc_chunks :: "'a list"
  is_chunked :: bool

definition process_document :: "(str \<Rightarrow> str \<Rightarrow> 'a) \<Rightarrow> str \<Rightarrow> str \<Rightarrow> 'a processed_doc" where
  \<comment> \<open>\<open>nlp language\<close> is the model that \<open>load_model_for_language(language)\<close> returns\<close>
  "process_document nlp txt language =
     (let max_chunk_size = 100000 in
      if length txt \<le> max_chunk_size
      then \<lparr>doc_text = txt, doc_language = language,
            doc_chunks = [nlp language txt], is_chunked = False\<rparr>
      else \<lparr>doc_text = txt, doc_language = language,
            doc_chunks = map (\<lambda>k. nlp language (take max_chunk_size (drop (k * max_chunk_size) txt)))
                             [0 ..< (length txt + max_chunk_size - 1) div max_chunk_size],
            is_chunked = True\<rparr>)"

definition indicators :: "str list" where
  "indicators = map u
     [''important'', ''significant'', ''key'', ''main'', ''primary'',
      ''essential'', ''crucial'', ''critical'', ''fundamental'',
      ''therefore'', ''thus'', ''hence'', ''accordingly'', ''consequently'',
      ''as a result'', ''in conclusion'', ''to summarize'',
      ''must'', ''should'', ''shall'', ''will'', ''required'',
      ''noteworthy'', ''notably'', ''particularly'', ''especially'', ''specifically'',
      ''primarily'', ''chiefly'', ''mainly'', ''predominantly'', ''principally'',
      ''significantly'', ''markedly'', ''substantially'', ''considerably'',
      ''undoubtedly'', ''unquestionably'', ''indisputably'', ''indubitably'',
      ''evidently'', ''obviously'', ''plainly'', ''patently'', ''manifestly'',
      ''firstly'', ''secondly'', ''thirdly'', ''finally'', ''lastly'',
      ''in summary'', ''in brief'', ''in short'', ''overall'']"

definition topic_sentence_indicators :: "str list" where
  "topic_sentence_indicators = map u
     [''this'', ''these'', ''such'', ''the'', ''our'', ''their'', ''we'', ''they'',
      ''according'', ''research'', ''study'', ''analysis'', ''evidence'', ''data'',
      ''report'', ''survey'', ''investigation'', ''findings'', ''results'']"

definition any_in :: "str list \<Rightarrow> str \<Rightarrow> bool" where
  \<comment> \<open>\<open>any(w in s for w in ws)\<close>\<close>
  "any_in ws s = list_ex (\<lambda>w. contains s w) ws"

definition append_new :: "str list \<Rightarrow> str \<Rightarrow> str list" where
  \<comment> \<open>\<open>if x not in bullets: bullets.append(x)\<close>\<close>
  "append_new bullets x = (if x \<notin> set bullets then bullets @ [x] else bullets)"

text \<open>Phase 1: sentences with an indicator, a numbered-list marker or a bullet glyph.\<close>

definition clean_sentence :: "py \<Rightarrow> str \<Rightarrow> str" where
  "clean_sentence py sentence = strip py (re_sub (cleanup_marker py) [] sentence)"

definition phase1_sentence :: "py \<Rightarrow> str list \<Rightarrow> str \<Rightarrow> str list" where
  "phase1_sentence py bullets sentence =
     (if length (strip py sentence) < 15 then bullets
      else if any_in indicators (py_lower py sentence)
              \<or> re_match (numbered_marker py) sentence
              \<or> re_match (glyph_marker py) sentence
      then (let c = clean_sentence py sentence
            in if c \<noteq> [] \<and> c \<notin> set bullets then bullets @ [c] else bullets)
      else bullets)"

definition phase1_paragraph :: "py \<Rightarrow> str list \<Rightarrow> str \<Rightarrow> str list" where
  "phase1_paragraph py bullets para =
     (if length (strip py para) < 20 then bullets
      else foldl (phase1_sentence py) bullets (split_sentences py para))"

text \<open>Phase 2: the first sentence of each paragraph, and sentences with a topic indicator.\<close>

definition phase2_sentence :: "py \<Rightarrow> str list \<Rightarrow> str \<Rightarrow> str list" where
  "phase2_sentence py bullets sentence =
     (if length (strip py sentence) < 15 then bullets
      else if any_in topic_sentence_indicators (py_lower py sentence)
      then append_new bullets sentence
      else bullets)"

definition phase2_paragraph :: "py \<Rightarrow> str list \<Rightarrow> str \<Rightarrow> str list" where
  "phase2_paragraph py bullets para =
     (if length (strip py para) < 20 then bullets
      else (case split_sentences py para of
              [] \<Rightarrow> bullets
            | s0 # rest \<Rightarrow>
                foldl (phase2_sentence py)
                  (if length s0 > 15 then append_new bullets s0 else bullets) rest))"

text \<open>Phase 3: sentences with a percentage, an amount of money, a year or a large number.\<close>

definition phase3_sentence :: "py \<Rightarrow> str list \<Rightarrow> str \<Rightarrow> str list" where
  "phase3_sentence py bullets sentence =
     (if re_search (percentage py) sentence
         \<or> re_search (money py) sentence
         \<or> re_search (year py) sentence
         \<or> re_search (large_number py) (py_lower py sentence)
      then append_new bullets sentence
      else bullets)"

definition phase3_paragraph :: "py \<Rightarrow> str list \<Rightarrow> str \<Rightarrow> str list" where
  "phase3_paragraph py bullets para = foldl (phase3_sentence py) bullets (split_sentences py para)"

text \<open>Phase 4: questions.\<close>

definition phase4_sentence :: "str list \<Rightarrow> str \<Rightarrow> str list" where
  "phase4_sentence bullets sentence =
     (if contains sentence (u ''?'') \<and> length sentence > 20
      then append_new bullets sentence
      else bullets)"

definition phase4_paragraph :: "py \<Rightarrow> str list \<Rightarrow> str \<Rightarrow> str list" where
  "phase4_paragraph py bullets para = foldl phase4_sentence bullets (split_sentences py para)"

definition phase1 :: "py \<Rightarrow> str list \<Rightarrow> str list" where
  \<comment> \<open>the list \<open>bullets\<close> after the first loop over the paragraphs\<close>
  "phase1 py paragraphs = foldl (phase1_paragraph py) [] paragraphs"

definition collect_bullets :: "py \<Rightarrow> str \<Rightarrow> str list" where
  \<comment> \<open>the list \<open>bullets\<close> after the four phases\<close>
  "collect_bullets py txt =
     (let paragraphs = split_paragraphs py txt;
          bullets1 = phase1 py paragraphs;
          bullets2 = (if length bullets1 < 15
                      then foldl (phase2_paragraph py) bullets1 paragraphs else bullets1);
          bullets3 = foldl (phase3_paragraph py) bullets2 paragraphs
      in foldl (phase4_paragraph py) bullets3 paragraphs)"

text \<open>
  The category prefix of the bullet at index \<open>i\<close> of \<open>n\<close>. The source compares \<open>i\<close>
  with the floats \<open>n * 0.2\<close> and \<open>n * 0.8\<close>; the comparisons are written over the
  integers.
\<close>

definition category_prefix :: "py \<Rightarrow> nat \<Rightarrow> nat \<Rightarrow> str \<Rightarrow> str" where
  "category_prefix py n i bullet =
     (let bullet_lower = py_lower py bullet in
      if any_in (map u [''therefore'', ''thus'', ''hence'', ''result'', ''consequently'']) bullet_lower
        then u ''Conclusion: ''
      else if any_in (map u [''example'', ''instance'', ''illustrate'', ''case'']) bullet_lower
        then u ''Example: ''
      else if any_in (map u [''important'', ''crucial'', ''critical'', ''essential'']) bullet_lower
        then u ''Key Point: ''
      else if re_search (statistic py) bullet then u ''Statistic: ''
      else if contains bullet (u ''?'') then u ''Question: ''
      else if 5 * i < n then u ''Introduction: ''
      else if 5 * i > 4 * n then u ''Summary: ''
      else u ''Point: '')"

definition enhance_bullets :: "py \<Rightarrow> str list \<Rightarrow> str list" where
  "enhance_bullets py bullets =
     map (\<lambda>(i, bullet). category_prefix py (length bullets) i bullet @ bullet)
         (enumerate_list bullets)"

definition extract_bullet_points :: "py \<Rightarrow> 'a processed_doc \<Rightarrow> str \<Rightarrow> str list" where
  "extract_bullet_points py processed_doc language =
     take 20 (enhance_bullets py (collect_bullets py (doc_text processed_doc)))"

text \<open>
  The eight category prefixes, and the text of a rendered bullet after its
  category prefix: no prefix is an initial segment of another, so at most one can
  be removed.
\<close>

definition category_prefixes :: "str list" where
  "category_prefixes = map u
     [''Conclusion: '', ''Example: '', ''Key Point: '', ''Statistic: '', ''Question: '',
      ''Introduction: '', ''Summary: '', ''Point: '']"

fun remove_first_prefix :: "str list \<Rightarrow> str \<Rightarrow> str" where
  "remove_first_prefix [] s = s"
| "remove_first_prefix (p # ps) s =
     (if prefix p s then drop (length p) s else remove_first_prefix ps s)"

definition raw_text :: "str \<Rightarrow> str" where
  "raw_text bullet = remove_first_prefix category_prefixes bullet"

section \<open>nlp_models: the mock transformer pipeline\<close>

text \<open>
  Exceptions are values: every function that can raise returns \<open>exn + 'a\<close>, with
  \<open>Inl\<close> for the exception. All of them are subclasses of \<open>Exception\<close>, which is what
  the \<open>except Exception\<close> clauses of the source catch.
\<close>

datatype exn = ZeroDivisionError | KeyError str | Exception str

text \<open>
  The shapes of what a pipeline returns: a list of dictionaries with string values
  (summarization), a dictionary with the entries \<open>labels\<close>, \<open>scores\<close> and \<open>sequence\<close>
  (classification), a string (translation), or a dictionary with the entry
  \<open>error\<close>. A dictionary is an association list.
\<close>

datatype pipeline_result =
    Summaries "(str \<times> str) list list"
  | Label_Scores "str list" "real list" str
  | Text str
  | Error_Dict str

record kwargs =
  kw_max_length :: "int option"
  kw_min_length :: "int option"
  kw_do_sample :: "bool option"
  kw_candidate_labels :: "str list option"

record pipeline =
  pipeline_task :: str
  pipeline_language :: str

definition get_transformer_model :: "str \<Rightarrow> str \<Rightarrow> pipeline" where
  "get_transformer_model task language = \<lparr>pipeline_task = task, pipeline_language = language\<rparr>"

definition dict_get :: "('k \<times> 'v) list \<Rightarrow> 'k \<Rightarrow> 'v \<Rightarrow> 'v" where
  \<comment> \<open>\<open>d.get(k, default)\<close>\<close>
  "dict_get d k dflt = (case map_of d k of Some v \<Rightarrow> v | None \<Rightarrow> dflt)"

fun dict_set :: "'k \<Rightarrow> 'v \<Rightarrow> ('k \<times> 'v) list \<Rightarrow> ('k \<times> 'v) list" where
  \<comment> \<open>\<open>d[k] = v\<close>\<close>
  "dict_set k v [] = [(k, v)]"
| "dict_set k v ((k', v') # d) = (if k = k' then (k', v) # d else (k', v') # dict_set k v d)"

fun incr :: "'k \<Rightarrow> ('k \<times> int) list \<Rightarrow> ('k \<times> int) list" where
  \<comment> \<open>\<open>d[k] += 1\<close> on a \<open>defaultdict(int)\<close>\<close>
  "incr k [] = [(k, 1)]"
| "incr k ((k', v) # d) = (if k = k' then (k', v + 1) # d else (k', v) # incr k d)"

definition slice_to :: "int \<Rightarrow> 'a list \<Rightarrow> 'a list" where
  \<comment> \<open>\<open>s[:n]\<close>; a negative \<open>n\<close> counts from the end\<close>
  "slice_to n s = (if 0 \<le> n then take (nat n) s else take (nat (int (length s) + n)) s)"

definition py_int :: "real \<Rightarrow> int" where
  \<comment> \<open>\<open>int(x)\<close> truncates towards zero\<close>
  "py_int x = (if 0 \<le> x then \<lfloor>x\<rfloor> else \<lceil>x\<rceil>)"

subsection \<open>\<open>_generate_summary\<close>\<close>

definition transitions :: "str list" where
  "transitions = map u
     [''Additionally, '', ''Furthermore, '', ''Moreover, '', ''In addition, '', ''Also, '']"

definition summary_sentences :: "str list \<Rightarrow> str list" where
  "summary_sentences sentences =
     (let n = length sentences in
      if n > 10 then
        [sentences ! 0,
         if n > 1 then sentences ! 1 else [],
         sentences ! (n div 4),
         sentences ! (n div 2),
         sentences ! ((3 * n) div 4),
         if n > 2 then sentences ! (n - 2) else [],
         if n > 1 then sentences ! (n - 1) else []]
      else if n > 5 then
        [sentences ! 0,
         if n > 1 then sentences ! 1 else [],
         sentences ! (n div 2),
         if n > 2 then sentences ! (n - 2) else [],
         if n > 1 then sentences ! (n - 1) else []]
      else sentences)"

definition connect_sentences :: "py \<Rightarrow> str list \<Rightarrow> str" where
  "connect_sentences py filtered_sentences =
     (if length filtered_sentences > 2 then
        join (u '' '')
          ([filtered_sentences ! 0]
           @ map (\<lambda>(i, sentence). transitions ! (i mod length transitions) @ lstrip py sentence)
                 (enumerate_list (butlast (tl filtered_sentences)))
           @ [u ''Finally, '' @ lstrip py (last filtered_sentences)])
      else join (u '' '') filtered_sentences)"

fun additional_text :: "int \<Rightarrow> str \<Rightarrow> str \<Rightarrow> str list \<Rightarrow> str" where
  \<comment> \<open>the loop over \<open>remaining_sentences\<close>, with its \<open>break\<close>\<close>
  "additional_text min_length summary additional [] = additional"
| "additional_text min_length summary additional (s # remaining) =
     (if int (length (summary @ u '' '' @ additional)) < min_length
      then additional_text min_length summary (additional @ u '' '' @ s) remaining
      else additional)"

definition summary_text :: "py \<Rightarrow> str \<Rightarrow> int \<Rightarrow> int \<Rightarrow> str" where
  "summary_text py txt max_length min_length =
     (let sentences = split_sentences py txt;
          filtered_sentences = filter (\<lambda>s. strip py s \<noteq> []) (summary_sentences sentences);
          summary = connect_sentences py filtered_sentences;
          summary = (if int (length summary) < min_length \<and> int (length txt) > min_length
                     then summary @ additional_text min_length summary []
                                      (filter (\<lambda>s. s \<notin> set filtered_sentences) sentences)
                     else summary)
      in if int (length summary) > max_length then slice_to max_length summary @ u ''...''
         else summary)"

definition generate_summary :: "py \<Rightarrow> str \<Rightarrow> int \<Rightarrow> int \<Rightarrow> pipeline_result" where
  "generate_summary py txt max_length min_length =
     Summaries [[(u ''summary_text'', summary_text py txt max_length min_length)]]"

subsection \<open>\<open>_classify_text\<close>\<close>

definition categories :: "str list" where
  "categories = map u [''Complaint'', ''Request'', ''Update/Notification'', ''Appreciation'']"

definition keyword_categories :: "(str \<times> str list) list" where
  "keyword_categories =
    [(u ''Complaint'', map u [''issue'', ''problem'', ''complaint'', ''dissatisfied'', ''disappointed'', ''poor'', ''bad'', ''terrible'']),
     (u ''Request'', map u [''please'', ''request'', ''kindly'', ''could you'', ''would you'', ''need'', ''want'', ''asking'']),
     (u ''Update/Notification'', map u [''update'', ''notify'', ''inform'', ''announce'', ''notice'', ''advisory'', ''bulletin'', ''information'']),
     (u ''Appreciation'', map u [''thank'', ''appreciate'', ''grateful'', ''excellent'', ''good'', ''well done'', ''pleased'', ''happy''])]"

definition count_keywords :: "py \<Rightarrow> str \<Rightarrow> (str \<times> int) list" where
  \<comment> \<open>the dictionary \<open>scores\<close> after the counting loop: only matched categories have an entry\<close>
  "count_keywords py txt =
     (let text_lower = py_lower py txt in
      foldl (\<lambda>scores (category, keywords).
               foldl (\<lambda>scores keyword.
                        if contains text_lower keyword then incr category scores else scores)
                     scores keywords)
            [] keyword_categories)"

definition random_scores :: "py \<Rightarrow> str list \<Rightarrow> (str \<times> int) list" where
  \<comment> \<open>\<open>scores[category] = 1 + int(random.random() * 9)\<close> for each candidate label in turn\<close>
  "random_scores py candidate_labels =
     foldl (\<lambda>scores (i, category). dict_set category (1 + py_int (py_random py i * 9)) scores)
           [] (enumerate_list candidate_labels)"

definition category_scores :: "py \<Rightarrow> str \<Rightarrow> str list \<Rightarrow> (str \<times> int) list" where
  "category_scores py txt candidate_labels =
     (let scores = count_keywords py txt in
      if scores = [] then random_scores py candidate_labels else scores)"

definition ordered_labels :: "py \<Rightarrow> str \<Rightarrow> str list \<Rightarrow> str list" where
  \<comment> \<open>\<open>sorted(candidate_labels, key=..., reverse=True)\<close>: descending and stable\<close>
  "ordered_labels py txt candidate_labels =
     sort_key (\<lambda>label. - dict_get (category_scores py txt candidate_labels) label 0)
              candidate_labels"

definition weight :: "(str \<times> int) list \<Rightarrow> str \<Rightarrow> real" where
  \<comment> \<open>\<open>float(scores.get(label, 0.1))\<close>\<close>
  "weight scores label = (case map_of scores label of Some v \<Rightarrow> real_of_int v | None \<Rightarrow> 0.1)"

definition classify_text :: "py \<Rightarrow> str \<Rightarrow> kwargs \<Rightarrow> exn + pipeline_result" where
  "classify_text py txt kwargs =
     (let candidate_labels = (case kw_candidate_labels kwargs of
                                Some labels \<Rightarrow> labels | None \<Rightarrow> categories);
          scores = category_scores py txt candidate_labels;
          ordered = ordered_labels py txt candidate_labels;
          total = sum_list (map (weight scores) ordered)
      in if ordered \<noteq> [] \<and> total = 0 then Inl ZeroDivisionError
         else Inr (Label_Scores ordered
                     (map (\<lambda>label. weight scores label / total) ordered)
                     (if length txt > 100 then take 100 txt @ u ''...'' else txt)))"

definition translate_text :: "pipeline \<Rightarrow> str \<Rightarrow> str" where
  "translate_text p txt =
     (if length txt > 100
      then u ''[Translated from '' @ pipeline_language p @ u '' to English]: '' @ take 100 txt @ u ''...''
      else txt)"

definition pipeline_call :: "py \<Rightarrow> pipeline \<Rightarrow> str \<Rightarrow> kwargs \<Rightarrow> exn + pipeline_result" where
  \<comment> \<open>\<open>MockTransformerPipeline.__call__\<close>\<close>
  "pipeline_call py p txt kwargs =
     (if pipeline_task p = u ''summarization'' then
        Inr (generate_summary py txt
               (case kw_max_length kwargs of Some n \<Rightarrow> n | None \<Rightarrow> 300)
               (case kw_min_length kwargs of Some n \<Rightarrow> n | None \<Rightarrow> 150))
      else if pipeline_task p = u ''zero-shot-classification'' then classify_text py txt kwargs
      else if pipeline_task p = u ''translation'' then Inr (Text (translate_text p txt))
      else Inr (Error_Dict (u ''Unsupported task: '' @ pipeline_task p)))"

section \<open>document_processor: summary\<close>

definition summarizer_kwargs :: "nat \<Rightarrow> nat \<Rightarrow> kwargs" where
  \<comment> \<open>\<open>max_length=..., min_length=..., do_sample=False\<close>\<close>
  "summarizer_kwargs max_length min_length =
     \<lparr>kw_max_length = Some (int max_length), kw_min_length = Some (int min_length),
      kw_do_sample = Some False, kw_candidate_labels = None\<rparr>"

definition summary_text_of :: "pipeline_result \<Rightarrow> str \<Rightarrow> str" where
  \<comment> \<open>the test on the shape of \<open>result\<close> and \<open>result[0].get('summary_text', default)\<close>\<close>
  "summary_text_of result dflt =
     (case result of
        Summaries (d # _) \<Rightarrow> dict_get d (u ''summary_text'') dflt
      | _ \<Rightarrow> dflt)"

definition paragraph_summary ::
  "(str \<Rightarrow> kwargs \<Rightarrow> exn + pipeline_result) \<Rightarrow> str \<Rightarrow> nat \<Rightarrow> nat \<Rightarrow> str" where
  \<comment> \<open>the \<open>try\<close> statement in the loop over the paragraphs\<close>
  "paragraph_summary summarizer para max_length min_length =
     (case summarizer para (summarizer_kwargs (max_length div 2) (min_length div 2)) of
        Inr result \<Rightarrow> summary_text_of result (take 100 para @ u ''...'')
      | Inl e \<Rightarrow> take 100 para @ u ''...'')"

definition get_summary_with ::
  "py \<Rightarrow> (str \<Rightarrow> kwargs \<Rightarrow> exn + pipeline_result) \<Rightarrow> 'a processed_doc \<Rightarrow> str \<Rightarrow> exn + str" where
  \<comment> \<open>the body of \<open>get_summary\<close>, for any summarizer\<close>
  "get_summary_with py summarizer processed_doc language =
     (let txt = doc_text processed_doc;
          text_length = length txt;
          max_length = min 150 (text_length div 4);
          min_length = min 30 (max_length div 2)
      in if text_length > 1000 then
           (let paragraphs = split_paragraphs py txt;
                summaries = map (\<lambda>para. paragraph_summary summarizer para max_length min_length)
                                (filter (\<lambda>para. length (strip py para) > 200) paragraphs)
            in if length summaries > 1 then
                 (let combined_summary = join (u '' '') summaries in
                  if length combined_summary > 1000 then
                    (case summarizer combined_summary (summarizer_kwargs max_length min_length) of
                       Inr result \<Rightarrow>
                         Inr (summary_text_of result (take 200 combined_summary @ u ''...''))
                     | Inl e \<Rightarrow> Inr combined_summary)
                  else Inr combined_summary)
               else if length summaries = 1 then Inr (summaries ! 0)
               else Inr (take max_length txt @ u ''...''))
         else
           (case summarizer txt (summarizer_kwargs max_length min_length) of
              Inr result \<Rightarrow> Inr (summary_text_of result (take 150 txt @ u ''...''))
            | Inl e \<Rightarrow> Inr (join (u '' '') (take 3 (split_sentences py txt)) @ u ''...'')))"

definition get_summary :: "py \<Rightarrow> 'a processed_doc \<Rightarrow> str \<Rightarrow> exn + str" where
  "get_summary py processed_doc language =
     get_summary_with py
       (pipeline_call py (get_transformer_model (u ''summarization'') language))
       processed_doc language"

section \<open>document_processor: intent classification\<close>

definition explanations :: "(str \<times> str \<times> str list) list" where
  \<comment> \<open>label, \<open>main\<close>, \<open>details\<close>\<close>
  "explanations =
    [(u ''Complaint'',
       u ''The document contains expressions of dissatisfaction or descriptions of problems that need to be addressed.'',
        [u ''The text includes language that indicates dissatisfaction, frustration, or concerns.'',
         u ''There may be descriptions of issues, problems, or negative experiences.'',
         u ''The author appears to be seeking resolution, correction, or acknowledgment of a problem.'',
         u ''The document likely uses words with negative connotations to describe a situation or experience.'',
         u ''There may be explicit requests for corrective action or compensation.'']),
     (u ''Request'',
       u ''The document is primarily asking for information, action, or consideration of a specific matter.'',
        [u ''The text contains explicit requests for action, information, or assistance.'',
         u ''There is a clear expectation of a response or action from the recipient.'',
         u ''The language is typically polite and formal, using phrases like 'kindly', 'please', or 'would you'.'',
         u ''The document specifies what is being requested and often includes timeframes or deadlines.'',
         u ''There may be references to previous communications or established processes.'']),
     (u ''Update/Notification'',
       u ''The document provides information, updates, or notifications about policies, procedures, or events.'',
        [u ''The text focuses on delivering information rather than requesting action.'',
         u ''There are statements of fact, announcements, or updates on specific topics.'',
         u ''The document may include dates, times, locations, or other specific details about events or changes.'',
         u ''The language is generally neutral and informative, rather than persuasive or emotional.'',
         u ''There may be references to attachments, additional resources, or follow-up communications.'']),
     (u ''Appreciation'',
       u ''The document expresses gratitude, acknowledgment, or positive feedback.'',
        [u ''The text contains expressions of thanks, gratitude, or appreciation.'',
         u ''There are positive descriptions of actions, services, or assistance received.'',
         u ''The document may acknowledge specific individuals, teams, or organizations.'',
         u ''The language is warm, appreciative, and uses positive adjectives.'',
         u ''There may be mentions of the positive impact of the actions being acknowledged.''])]"

definition intent_keywords :: "(str \<times> str list) list" where
  "intent_keywords =
    [(u ''Complaint'', map u [''issue'', ''problem'', ''concerned'', ''dissatisfied'', ''disappointed'', ''fix'', ''resolve'', ''failing'']),
     (u ''Request'', map u [''please'', ''request'', ''kindly'', ''would you'', ''could you'', ''need'', ''require'', ''provide'']),
     (u ''Update/Notification'', map u [''inform'', ''announce'', ''update'', ''notification'', ''advise'', ''reminder'', ''schedule'', ''upcoming'']),
     (u ''Appreciation'', map u [''thank'', ''appreciate'', ''grateful'', ''excellent'', ''outstanding'', ''wonderful'', ''helpful'', ''generous''])]"

datatype confidence = High | Medium | Low

definition confidence_level :: "real \<Rightarrow> confidence" where
  "confidence_level score = (if score > 0.8 then High else if score > 0.6 then Medium else Low)"

fun confidence_phrases :: "confidence \<Rightarrow> str" where
  "confidence_phrases High = u ''with high confidence''"
| "confidence_phrases Medium = u ''with moderate confidence''"
| "confidence_phrases Low = u ''with low confidence''"

fun confidence_explanations :: "confidence \<Rightarrow> str" where
  "confidence_explanations High =
     u ''The confidence level is high, suggesting strong indicators of this intent in the text.''"
| "confidence_explanations Medium =
     u ''The moderate confidence level indicates some clear indicators of this intent, though some aspects may be ambiguous.''"
| "confidence_explanations Low =
     u ''The low confidence level suggests the intent classification is tentative, as the text may contain mixed signals or limited clear indicators.''"

definition classifier_kwargs :: kwargs where
  \<comment> \<open>\<open>candidate_labels=categories\<close>\<close>
  "classifier_kwargs =
     \<lparr>kw_max_length = None, kw_min_length = None, kw_do_sample = None,
      kw_candidate_labels = Some categories\<rparr>"

definition intent_and_score ::
  "(str \<Rightarrow> kwargs \<Rightarrow> exn + pipeline_result) \<Rightarrow> str \<Rightarrow> str \<times> real" where
  \<comment> \<open>the \<open>try\<close> statement of \<open>classify_intent\<close>: the variables \<open>intent\<close> and \<open>score\<close>\<close>
  "intent_and_score classifier txt =
     (let sample_text = take 1000 txt in
      case classifier sample_text classifier_kwargs of
        Inr (Label_Scores labels scores sq) \<Rightarrow>
          (if length labels > 0 then labels ! 0 else categories ! 0,
           if length scores > 0 then scores ! 0 else 0.5)
      | Inr _ \<Rightarrow> (categories ! 0, 0.5)
      | Inl e \<Rightarrow> (categories ! 0, 0.5))"

definition found_keywords :: "py \<Rightarrow> str list \<Rightarrow> str \<Rightarrow> str list" where
  \<comment> \<open>\<open>[word for word in keywords if word in text[:2000].lower()]\<close>\<close>
  "found_keywords py keywords txt =
     filter (\<lambda>word. contains (py_lower py (take 2000 txt)) word) keywords"

definition explanation_parts ::
  "py \<Rightarrow> str \<Rightarrow> str list \<Rightarrow> real \<Rightarrow> str list \<Rightarrow> str list" where
  "explanation_parts py main details score found =
     (let level = confidence_level score in
      [main @ u '' The document has been classified '' @ confidence_phrases level
         @ u '' ('' @ py_format_2f py score @ u '').'',
       [10] @ u ''Detailed analysis:'']
      @ map (\<lambda>detail. [10, bullet_glyph] @ u '' '' @ detail) details
      @ (if found \<noteq> []
         then [[10] @ u ''Keywords detected: '' @ join (u '', '') (take 5 found)]
         else [])
      @ [[10] @ confidence_explanations level])"

definition classify_intent_with ::
  "py \<Rightarrow> (str \<Rightarrow> kwargs \<Rightarrow> exn + pipeline_result) \<Rightarrow> 'a processed_doc \<Rightarrow> str
     \<Rightarrow> exn + str \<times> str" where
  \<comment> \<open>the body of \<open>classify_intent\<close>, for any classifier; a label that is no key of
      \<open>explanations\<close> raises \<open>KeyError\<close>\<close>
  "classify_intent_with py classifier processed_doc language =
     (let txt = doc_text processed_doc;
          (intent, score) = intent_and_score classifier txt
      in case map_of explanations intent of
           None \<Rightarrow> Inl (KeyError intent)
         | Some (main, details) \<Rightarrow>
             (case map_of intent_keywords intent of
                None \<Rightarrow> Inl (KeyError intent)
              | Some keywords \<Rightarrow>
                  Inr (intent,
                       concat (explanation_parts py main details score
                                 (found_keywords py keywords txt)))))"

definition classify_intent :: "py \<Rightarrow> 'a processed_doc \<Rightarrow> str \<Rightarrow> exn + str \<times> str" where
  "classify_intent py processed_doc language =
     classify_intent_with py
       (pipeline_call py (get_transformer_model (u ''zero-shot-classification'') language))
       processed_doc language"

text \<open>
  The rendering of a float by the format \<open>.2f\<close>, for a float that holds its value
  exactly: two decimals, rounded half to even.
\<close>

fun digits :: "nat \<Rightarrow> str" where
  "digits n = (if n < 10 then [48 + n] else digits (n div 10) @ [48 + n mod 10])"

definition format_2f :: "real \<Rightarrow> str" where
  "format_2f x =
     (let y = \<bar>x\<bar> * 100;
          f = nat \<lfloor>y\<rfloor>;
          r = y - of_int \<lfloor>y\<rfloor>;
          n = (if r < 1 / 2 then f else if r > 1 / 2 then f + 1
               else if even f then f else f + 1)
      in (if x < 0 then u ''-'' else []) @ digits (n div 100) @ u ''.''
         @ [48 + (n div 10) mod 10, 48 + n mod 10])"

section \<open>An instance of the interpreter's tables\<close>

text \<open>
  An instance to compute with, which agrees with CPython on ASCII text: the white
  space of \<open>str.isspace\<close>, the digits \<open>0\<close> to \<open>9\<close>, lower-casing of \<open>A\<close> to \<open>Z\<close>;
  every random draw is 0.
\<close>

definition ascii_py :: py where
  "ascii_py = \<lparr>
     py_isspace = (\<lambda>c. c \<in> set [9, 10, 11, 12, 13, 28, 29, 30, 31, 32, 133, 160, 5760,
                              8192, 8193, 8194, 8195, 8196, 8197, 8198, 8199, 8200, 8201, 8202,
                              8232, 8233, 8239, 8287, 12288]),
     py_isdigit = (\<lambda>c. 48 \<le> c \<and> c \<le> 57),
     py_lower = map (\<lambda>c. if 65 \<le> c \<and> c \<le> 90 then c + 32 else c),
     py_format_2f = format_2f,
     py_random = (\<lambda>i. 0) \<rparr>"

section \<open>Auxiliary notions for the proofs\<close>

definition bullets_inv :: "str \<Rightarrow> str list \<Rightarrow> bool" where
  \<comment> \<open>the invariant of the list \<open>bullets\<close>: no entry twice, every entry a contiguous part of
      the document\<close>
  "bullets_inv txt bullets = (distinct bullets \<and> (\<forall>b \<in> set bullets. sublist b txt))"

section \<open>Example documents\<close>

definition example_doc :: "unit processed_doc" where
  "example_doc = process_document (\<lambda>language txt. ())
     (u ''- This point is long enough. Is this a question, or is it not?'') (u ''English'')"

definition numbered_doc :: "unit processed_doc" where
  "numbered_doc = process_document (\<lambda>language txt. ())
     (u ''1) This item is long enough.'') (u ''English'')"

definition request_doc :: "unit processed_doc" where
  "request_doc = process_document (\<lambda>language txt. ())
     (u ''Please provide the requested documents by Friday. Kindly respond at your earliest convenience.'')
     (u ''English'')"

definition plain_doc :: "unit processed_doc" where
  "plain_doc = process_document (\<lambda>language txt. ()) (u ''hello'') (u ''English'')"

definition scores_ge_1 :: "(str \<times> int) list \<Rightarrow> bool" where
  "scores_ge_1 scores = (\<forall>(k, v) \<in> set scores. 1 \<le> v)"

definition long_doc :: "unit processed_doc" where
  \<comment> \<open>1001 times the letter \<open>a\<close>\<close>
  "long_doc = process_document (\<lambda>language txt. ()) (replicate 1001 97) (u ''English'')"

definition failing_summarizer :: "str \<Rightarrow> kwargs \<Rightarrow> exn + pipeline_result" where
  "failing_summarizer txt kwargs = Inl (Exception (u ''model unavailable''))"

definition bad_doc :: "unit processed_doc" where
  "bad_doc = process_document (\<lambda>language txt. ())
     (u ''This is bad and terrible service.'') (u ''English'')"

section \<open>Regular expressions: matches are contiguous parts of the subject\<close>

declare re_split_from.simps [simp del] re_sub_from.simps [simp del]

lemma sublist_trans: "sublist xs ys \<Longrightarrow> sublist ys zs \<Longrightarrow> sublist xs zs"
  unfolding sublist_def by (metis append.assoc)

lemma rx_match_position:
  "e \<in> set (rx_match r z) \<Longrightarrow> \<exists>m. snd z = m @ snd e \<and> fst e = rev m @ fst z"
proof (induction r z arbitrary: e rule: rx_match.induct)
  case (1 w b s)
  then show ?case by (auto simp: prefix_def split: if_splits)
next
  case (5 P b c cs)
  show ?case
  proof (cases "P c \<and> e \<in> set (rx_match (Star P) (c # b, cs))")
    case True
    with 5 obtain m where "cs = m @ snd e" "fst e = rev m @ c # b" by fastforce
    then show ?thesis by (intro exI[of _ "c # m"]) simp
  next
    case False
    with 5 show ?thesis by (auto split: if_splits)
  qed
next
  case (6 r1 r2 z)
  from 6(3) obtain e1 where e1: "e1 \<in> set (rx_match r1 z)" and e: "e \<in> set (rx_match r2 e1)"
    by auto
  from 6(1)[OF e1] obtain m1 where m1: "snd z = m1 @ snd e1" "fst e1 = rev m1 @ fst z" by blast
  from 6(2)[OF e1 e] obtain m2 where m2: "snd e1 = m2 @ snd e" "fst e = rev m2 @ fst e1" by blast
  show ?case using m1 m2 by (intro exI[of _ "m1 @ m2"]) simp
qed (auto split: if_splits)

lemma re_search_from_position:
  "re_search_from r (b, s) = Some (pre, b', s') \<Longrightarrow>
     \<exists>m. s = pre @ m @ s' \<and> b' = rev m @ rev pre @ b \<and> (b', s') \<in> set (rx_match r (rev pre @ b, m @ s'))"
proof (induction s arbitrary: b pre)
  case Nil
  then show ?case
    using rx_match_position[of "(b', s')" r "(b, [])"]
    by (auto split: list.splits)
next
  case (Cons c cs)
  show ?case
  proof (cases "rx_match r (b, c # cs)")
    case Nil
    with Cons.prems obtain pre' where p: "re_search_from r (c # b, cs) = Some (pre', b', s')" "pre = c # pre'"
      by (auto split: option.splits)
    from Cons.IH[OF p(1)] p(2) show ?thesis by auto
  next
    case (Cons e es)
    with Cons.prems have e: "e = (b', s')" "pre = []" by auto
    with Cons have "(b', s') \<in> set (rx_match r (b, c # cs))" by simp
    from rx_match_position[OF this] this e show ?thesis by auto
  qed
qed

lemma re_split_from_sublist:
  "p \<in> set (re_split_from r (b, s)) \<Longrightarrow> sublist p s"
proof (induction r "(b, s)" arbitrary: b s rule: re_split_from.induct)
  case (1 r b s)
  show ?case
  proof (cases "re_search_from r (b, s)")
    case None
    with 1(2) show ?thesis by (simp add: re_split_from.simps)
  next
    case (Some t)
    obtain pre b' s' where t: "t = (pre, b', s')" by (cases t) auto
    from re_search_from_position[OF Some[unfolded t]]
    obtain m where m: "s = pre @ m @ s'" by blast
    show ?thesis
    proof (cases "length s' < length s")
      case True
      with 1(2) Some t have "p = pre \<or> p \<in> set (re_split_from r (b', s'))"
        by (simp add: re_split_from.simps)
      then show ?thesis
      proof
        assume "p = pre" with m show ?thesis by (metis sublist_append_rightI)
      next
        assume "p \<in> set (re_split_from r (b', s'))"
        from 1(1)[OF Some[unfolded t] refl refl True this] have "sublist p s'" .
        moreover have "sublist s' s" using m by (metis append.assoc sublist_append_leftI)
        ultimately show ?thesis by (rule sublist_trans)
      qed
    next
      case False
      with 1(2) Some t show ?thesis by (simp add: re_split_from.simps)
    qed
  qed
qed

lemma re_split_sublist: "p \<in> set (re_split r s) \<Longrightarrow> sublist p s"
  by (simp add: re_split_def re_split_from_sublist)

lemma strip_sublist: "sublist (strip py s) s"
proof -
  have "sublist (rev (dropWhile (py_isspace py) (rev (dropWhile (py_isspace py) s)))) (dropWhile (py_isspace py) s)"
    by (simp add: sublist_rev_left)
  then show ?thesis
    unfolding strip_def using sublist_dropWhile sublist_trans by blast
qed

lemma re_search_from_Bol:
  "b \<noteq> [] \<Longrightarrow> re_search_from (Seq Bol r) (b, s) = None"
  by (induction s arbitrary: b) auto

lemma re_sub_from_Bol:
  "b \<noteq> [] \<Longrightarrow> re_sub_from (Seq Bol r) repl (b, s) = s"
  by (simp add: re_sub_from.simps re_search_from_Bol)

lemma re_sub_Bol_suffix: "suffix (re_sub (Seq Bol r) [] s) s"
proof (cases "re_search_from (Seq Bol r) ([], s)")
  case None
  then show ?thesis by (simp add: re_sub_def re_sub_from.simps)
next
  case (Some t)
  obtain pre b' s' where t: "t = (pre, b', s')" by (cases t) auto
  from re_search_from_position[OF Some[unfolded t]]
  obtain m where m: "s = pre @ m @ s'" "b' = rev m @ rev pre @ []" by blast
  show ?thesis
  proof (cases "length s' < length s")
    case True
    have pre: "pre = []"
    proof (rule ccontr)
      assume "pre \<noteq> []"
      then obtain c cs where "pre = c # cs" by (cases pre) auto
      with m Some t show False
        by (cases "rx_match (Seq Bol r) ([], s)") (auto simp: re_search_from_Bol split: option.splits)
    qed
    with True m have "b' \<noteq> []" by auto
    then have "re_sub_from (Seq Bol r) [] (b', s') = s'" by (rule re_sub_from_Bol)
    with Some t True pre have "re_sub (Seq Bol r) [] s = s'"
      by (simp add: re_sub_def re_sub_from.simps)
    with m show ?thesis by (simp add: suffix_def)
  next
    case False
    with Some t show ?thesis by (simp add: re_sub_def re_sub_from.simps)
  qed
qed

lemma clean_sentence_sublist: "sublist (clean_sentence py s) s"
proof -
  have "suffix (re_sub (cleanup_marker py) [] s) s"
    unfolding cleanup_marker_def seqs.simps by (rule re_sub_Bol_suffix)
  then have "sublist (re_sub (cleanup_marker py) [] s) s" by (rule suffix_imp_sublist)
  with strip_sublist[of py "re_sub (cleanup_marker py) [] s"] show ?thesis
    unfolding clean_sentence_def using sublist_trans by blast
qed

lemma paragraph_search_None:
  "10 \<notin> set s \<Longrightarrow> re_search_from (paragraph_separator py) (b, s) = None"
  by (induction s arbitrary: b) (auto simp: paragraph_separator_def)

lemma split_paragraphs_single: "10 \<notin> set s \<Longrightarrow> split_paragraphs py s = [s]"
  by (simp add: split_paragraphs_def re_split_def re_split_from.simps paragraph_search_None)

lemma sentence_search_None:
  "\<forall>c \<in> set s. \<not> py_isspace py c \<Longrightarrow> re_search_from (sentence_separator py) (b, s) = None"
proof (induction s arbitrary: b)
  case Nil
  then show ?case by (cases b) (auto simp: sentence_separator_def Plus_def)
next
  case (Cons c cs)
  then show ?case by (cases b) (auto simp: sentence_separator_def Plus_def)
qed

lemma split_sentences_single:
  "\<forall>c \<in> set s. \<not> py_isspace py c \<Longrightarrow> split_sentences py s = [s]"
  by (simp add: split_sentences_def re_split_def re_split_from.simps sentence_search_None)

lemma strip_no_space: "\<forall>c \<in> set s. \<not> py_isspace py c \<Longrightarrow> strip py s = s"
proof -
  assume a: "\<forall>c \<in> set s. \<not> py_isspace py c"
  then have "dropWhile (py_isspace py) s = s" by (cases s) auto
  moreover from a have "dropWhile (py_isspace py) (rev s) = rev s" by (cases "rev s") auto
  ultimately show ?thesis by (simp add: strip_def)
qed


text \<open>
  Every match of the patterns that split or substitute consumes a character, so the
  scan of \<open>re_split_from\<close> and \<open>re_sub_from\<close> always advances.
\<close>

lemma rx_match_length: "e \<in> set (rx_match r z) \<Longrightarrow> length (snd e) \<le> length (snd z)"
  using rx_match_position[of e r z] by auto

lemma Cls_consumes: "e \<in> set (rx_match (Cls P) z) \<Longrightarrow> length (snd e) < length (snd z)"
  by (cases z, cases "snd z") (auto split: if_splits)

lemma Lit_consumes:
  "w \<noteq> [] \<Longrightarrow> e \<in> set (rx_match (Lit w) z) \<Longrightarrow> length (snd e) < length (snd z)"
  by (cases z) (auto simp: prefix_def split: if_splits)

lemma Seq_consumes_left:
  assumes "\<And>e1. e1 \<in> set (rx_match r1 z) \<Longrightarrow> length (snd e1) < length (snd z)"
    and "e \<in> set (rx_match (Seq r1 r2) z)"
  shows "length (snd e) < length (snd z)"
proof -
  from assms(2) obtain e1 where e1: "e1 \<in> set (rx_match r1 z)" "e \<in> set (rx_match r2 e1)"
    by auto
  from rx_match_length[OF e1(2)] assms(1)[OF e1(1)] show ?thesis by simp
qed

lemma Seq_consumes_right:
  assumes "\<And>z1 e2. e2 \<in> set (rx_match r2 z1) \<Longrightarrow> length (snd e2) < length (snd z1)"
    and "e \<in> set (rx_match (Seq r1 r2) z)"
  shows "length (snd e) < length (snd z)"
proof -
  from assms(2) obtain e1 where e1: "e1 \<in> set (rx_match r1 z)" "e \<in> set (rx_match r2 e1)"
    by auto
  from rx_match_length[OF e1(1)] assms(1)[OF e1(2)] show ?thesis by simp
qed

lemma paragraph_separator_consumes:
  assumes "e \<in> set (rx_match (paragraph_separator py) z)"
  shows "length (snd e) < length (snd z)"
proof -
  have "length (snd e1) < length (snd z)" if "e1 \<in> set (rx_match (Lit [10]) z)" for e1
    using that by (intro Lit_consumes[of "[10]" e1 z]) simp_all
  from Seq_consumes_left[of "Lit [10]" z, OF this] assms show ?thesis
    unfolding paragraph_separator_def seqs.simps by blast
qed

lemma sentence_separator_consumes:
  "e \<in> set (rx_match (sentence_separator py) z) \<Longrightarrow> length (snd e) < length (snd z)"
  unfolding sentence_separator_def seqs.simps Plus_def
  by (erule Seq_consumes_right[rotated], erule Seq_consumes_left[rotated]) (rule Cls_consumes)

lemma cleanup_marker_consumes:
  "e \<in> set (rx_match (cleanup_marker py) z) \<Longrightarrow> length (snd e) < length (snd z)"
  unfolding cleanup_marker_def seqs.simps
  by (erule Seq_consumes_right[rotated], erule Seq_consumes_right[rotated],
      erule Seq_consumes_left[rotated]) (rule Cls_consumes)

lemma search_consumes:
  assumes "\<And>e z. e \<in> set (rx_match r z) \<Longrightarrow> length (snd e) < length (snd z)"
    and "re_search_from r (b, s) = Some (pre, b', s')"
  shows "length s' < length s"
proof -
  from re_search_from_position[OF assms(2)] obtain m where
    m: "s = pre @ m @ s'" "(b', s') \<in> set (rx_match r (rev pre @ b, m @ s'))" by blast
  from assms(1)[OF m(2)] m(1) show ?thesis by simp
qed

lemma separators_always_advance:
  "re_search_from (paragraph_separator py) (b, s) = Some (pre, b', s') \<Longrightarrow> length s' < length s"
  "re_search_from (sentence_separator py) (b, s) = Some (pre, b', s') \<Longrightarrow> length s' < length s"
  "re_search_from (cleanup_marker py) (b, s) = Some (pre, b', s') \<Longrightarrow> length s' < length s"
  using search_consumes paragraph_separator_consumes sentence_separator_consumes
    cleanup_marker_consumes by blast+

section \<open>The bullet accumulator\<close>

lemma foldl_preserves:
  assumes "P a" and "\<And>a x. P a \<Longrightarrow> x \<in> set xs \<Longrightarrow> P (f a x)"
  shows "P (foldl f a xs)"
  using assms by (induction xs arbitrary: a) auto

lemma append_new_inv:
  "bullets_inv txt bullets \<Longrightarrow> sublist x txt \<Longrightarrow> bullets_inv txt (append_new bullets x)"
  by (auto simp: bullets_inv_def append_new_def)

lemma split_sentences_sublist:
  "sublist para txt \<Longrightarrow> s \<in> set (split_sentences py para) \<Longrightarrow> sublist s txt"
  unfolding split_sentences_def by (blast intro: sublist_trans re_split_sublist)

lemma phase1_sentence_inv:
  assumes "bullets_inv txt bullets" and "sublist s txt"
  shows "bullets_inv txt (phase1_sentence py bullets s)"
proof -
  have "sublist (clean_sentence py s) txt"
    using clean_sentence_sublist assms(2) by (rule sublist_trans)
  with assms(1) show ?thesis
    by (auto simp: phase1_sentence_def bullets_inv_def Let_def)
qed

lemma phase1_paragraph_inv:
  assumes "bullets_inv txt bullets" and "sublist para txt"
  shows "bullets_inv txt (phase1_paragraph py bullets para)"
proof (cases "length (strip py para) < 20")
  case True
  with assms(1) show ?thesis by (simp add: phase1_paragraph_def)
next
  case False
  have "bullets_inv txt (foldl (phase1_sentence py) bullets (split_sentences py para))"
    using assms(1)
    by (rule foldl_preserves) (simp add: phase1_sentence_inv split_sentences_sublist[OF assms(2)])
  with False show ?thesis by (simp add: phase1_paragraph_def)
qed

lemma phase2_sentence_inv:
  "bullets_inv txt bullets \<Longrightarrow> sublist s txt \<Longrightarrow> bullets_inv txt (phase2_sentence py bullets s)"
  by (simp add: phase2_sentence_def append_new_inv)

lemma phase2_paragraph_inv:
  assumes "bullets_inv txt bullets" and "sublist para txt"
  shows "bullets_inv txt (phase2_paragraph py bullets para)"
proof (cases "split_sentences py para")
  case Nil
  with assms(1) show ?thesis by (simp add: phase2_paragraph_def)
next
  case (Cons s0 rest)
  have sub: "\<And>s. s \<in> set (s0 # rest) \<Longrightarrow> sublist s txt"
    using split_sentences_sublist[OF assms(2)] Cons by metis
  have "bullets_inv txt (if length s0 > 15 then append_new bullets s0 else bullets)"
    using assms(1) sub by (simp add: append_new_inv)
  then have "bullets_inv txt (foldl (phase2_sentence py)
      (if length s0 > 15 then append_new bullets s0 else bullets) rest)"
    by (rule foldl_preserves) (simp add: phase2_sentence_inv sub)
  with assms(1) Cons show ?thesis by (simp add: phase2_paragraph_def)
qed

lemma phase3_paragraph_inv:
  assumes "bullets_inv txt bullets" and "sublist para txt"
  shows "bullets_inv txt (phase3_paragraph py bullets para)"
  unfolding phase3_paragraph_def
  using assms(1)
proof (rule foldl_preserves)
  fix a x assume "bullets_inv txt a" "x \<in> set (split_sentences py para)"
  then show "bullets_inv txt (phase3_sentence py a x)"
    using split_sentences_sublist[OF assms(2)]
    by (simp add: phase3_sentence_def append_new_inv)
qed

lemma phase4_paragraph_inv:
  assumes "bullets_inv txt bullets" and "sublist para txt"
  shows "bullets_inv txt (phase4_paragraph py bullets para)"
  unfolding phase4_paragraph_def
  using assms(1)
proof (rule foldl_preserves)
  fix a x assume "bullets_inv txt a" "x \<in> set (split_sentences py para)"
  then show "bullets_inv txt (phase4_sentence a x)"
    using split_sentences_sublist[OF assms(2)]
    by (simp add: phase4_sentence_def append_new_inv)
qed

lemma collect_bullets_inv: "bullets_inv txt (collect_bullets py txt)"
proof -
  let ?ps = "split_paragraphs py txt"
  have ps: "\<And>p. p \<in> set ?ps \<Longrightarrow> sublist p txt"
    by (simp add: split_paragraphs_def re_split_sublist)
  let ?b1 = "phase1 py ?ps"
  have b1: "bullets_inv txt ?b1"
    unfolding phase1_def
  proof (rule foldl_preserves)
    show "bullets_inv txt []" by (simp add: bullets_inv_def)
  qed (simp add: phase1_paragraph_inv ps)
  let ?b2 = "if length ?b1 < 15 then foldl (phase2_paragraph py) ?b1 ?ps else ?b1"
  have "bullets_inv txt (foldl (phase2_paragraph py) ?b1 ?ps)"
    using b1 by (rule foldl_preserves) (simp add: phase2_paragraph_inv ps)
  with b1 have b2: "bullets_inv txt ?b2" by simp
  have b3: "bullets_inv txt (foldl (phase3_paragraph py) ?b2 ?ps)"
    using b2 by (rule foldl_preserves) (simp add: phase3_paragraph_inv ps)
  have "bullets_inv txt (foldl (phase4_paragraph py) (foldl (phase3_paragraph py) ?b2 ?ps) ?ps)"
    using b3 by (rule foldl_preserves) (simp add: phase4_paragraph_inv ps)
  then show ?thesis by (simp add: collect_bullets_def Let_def)
qed

lemma category_prefix_in: "category_prefix py n i b \<in> set category_prefixes"
  unfolding category_prefix_def category_prefixes_def Let_def by simp

lemma raw_text_prefixes: "\<forall>p \<in> set category_prefixes. raw_text (p @ b) = b"
  unfolding raw_text_def category_prefixes_def u_def by simp

lemma raw_text_prefix: "p \<in> set category_prefixes \<Longrightarrow> raw_text (p @ b) = b"
  using raw_text_prefixes by blast

lemma raw_text_enhance: "map raw_text (enhance_bullets py bullets) = bullets"
  by (rule nth_equalityI)
     (simp_all add: enhance_bullets_def enumerate_list_def raw_text_prefix category_prefix_in)

lemma raw_text_extract:
  "map raw_text (extract_bullet_points py d language) = take 20 (collect_bullets py (doc_text d))"
  by (simp add: extract_bullet_points_def take_map[symmetric] raw_text_enhance)


section \<open>The classifier: scores, order and totality\<close>

lemma categories_distinct: "distinct categories"
  by (simp add: categories_def u_def)

lemma count_keywords_inner:
  "\<forall>k \<in> set kws. \<not> contains t k \<Longrightarrow>
   foldl (\<lambda>scores keyword. if contains t keyword then incr c scores else scores) s kws = s"
  by (induction kws arbitrary: s) auto

lemma count_keywords_outer:
  "\<forall>(c, kws) \<in> set table. \<forall>k \<in> set kws. \<not> contains t k \<Longrightarrow>
   foldl (\<lambda>scores (category, keywords).
            foldl (\<lambda>scores keyword. if contains t keyword then incr category scores else scores)
                  scores keywords) s table = s"
  by (induction table arbitrary: s) (auto simp: count_keywords_inner)

lemma count_keywords_empty:
  "\<forall>(c, kws) \<in> set keyword_categories. \<forall>k \<in> set kws. \<not> contains (py_lower py txt) k \<Longrightarrow>
   count_keywords py txt = []"
  unfolding count_keywords_def Let_def by (rule count_keywords_outer)

lemma random_scores_categories:
  "random_scores py categories =
     [(u ''Complaint'', 1 + py_int (py_random py 0 * 9)),
      (u ''Request'', 1 + py_int (py_random py 1 * 9)),
      (u ''Update/Notification'', 1 + py_int (py_random py 2 * 9)),
      (u ''Appreciation'', 1 + py_int (py_random py 3 * 9))]"
  by (simp add: random_scores_def categories_def enumerate_list_def u_def upt_rec
      numeral_2_eq_2 numeral_3_eq_3)

lemma draw_bounds:
  assumes "0 \<le> r" and "r < 1"
  shows "1 \<le> 1 + py_int (r * 9) \<and> 1 + py_int (r * 9) \<le> 9"
proof -
  have "0 \<le> r * 9" "r * 9 < 9" using assms by simp_all
  then have "0 \<le> \<lfloor>r * 9\<rfloor>" "\<lfloor>r * 9\<rfloor> < 9" by (simp_all add: floor_less_iff)
  with \<open>0 \<le> r * 9\<close> show ?thesis by (simp add: py_int_def)
qed

lemma incr_ge_1: "scores_ge_1 scores \<Longrightarrow> scores_ge_1 (incr k scores)"
  unfolding scores_ge_1_def by (induction scores) (auto split: if_splits)

lemma dict_set_ge_1: "scores_ge_1 scores \<Longrightarrow> 1 \<le> v \<Longrightarrow> scores_ge_1 (dict_set k v scores)"
  unfolding scores_ge_1_def by (induction scores) (auto split: if_splits)

lemma count_keywords_ge_1: "scores_ge_1 (count_keywords py txt)"
  unfolding count_keywords_def Let_def
proof (rule foldl_preserves)
  show "scores_ge_1 []" by (simp add: scores_ge_1_def)
next
  fix a :: "(str \<times> int) list" and x :: "str \<times> str list"
  assume a: "scores_ge_1 a"
  obtain category kws where x: "x = (category, kws)" by (cases x)
  have "scores_ge_1 (foldl (\<lambda>scores keyword.
          if contains (py_lower py txt) keyword then incr category scores else scores) a kws)"
    using a by (rule foldl_preserves) (simp add: incr_ge_1)
  then show "scores_ge_1 (case x of (category, keywords) \<Rightarrow>
      foldl (\<lambda>scores keyword. if contains (py_lower py txt) keyword then incr category scores
                               else scores) a keywords)"
    by (simp add: x)
qed

lemma random_scores_ge_1:
  assumes "\<forall>i. 0 \<le> py_random py i \<and> py_random py i < 1"
  shows "scores_ge_1 (random_scores py labels)"
  unfolding random_scores_def
proof (rule foldl_preserves)
  show "scores_ge_1 []" by (simp add: scores_ge_1_def)
next
  fix a :: "(str \<times> int) list" and x :: "nat \<times> str"
  assume a: "scores_ge_1 a"
  obtain i category where x: "x = (i, category)" by (cases x)
  have "1 \<le> 1 + py_int (py_random py i * 9)"
    using draw_bounds[of "py_random py i"] assms by simp
  with a show "scores_ge_1 (case x of (i, category) \<Rightarrow>
      dict_set category (1 + py_int (py_random py i * 9)) a)"
    by (simp add: x dict_set_ge_1)
qed

lemma category_scores_ge_1:
  assumes "\<forall>i. 0 \<le> py_random py i \<and> py_random py i < 1"
  shows "scores_ge_1 (category_scores py txt labels)"
  by (simp add: category_scores_def Let_def count_keywords_ge_1 random_scores_ge_1[OF assms])

lemma weight_pos: "scores_ge_1 scores \<Longrightarrow> 0 < weight scores label"
  by (auto simp: weight_def scores_ge_1_def split: option.splits dest!: map_of_SomeD)

lemma sum_list_pos_real:
  fixes xs :: "real list"
  shows "xs \<noteq> [] \<Longrightarrow> \<forall>x \<in> set xs. 0 < x \<Longrightarrow> 0 < sum_list xs"
  by (induction xs) (auto simp: add_pos_nonneg sum_list_nonneg less_imp_le)

lemma member_le_sum_list_real:
  fixes xs :: "real list"
  shows "x \<in> set xs \<Longrightarrow> \<forall>x \<in> set xs. 0 < x \<Longrightarrow> x \<le> sum_list xs"
  by (rule member_le_sum_list) (auto simp: less_imp_le)

lemma ordered_labels_set [simp]: "set (ordered_labels py txt labels) = set labels"
  by (simp add: ordered_labels_def)

lemma ordered_labels_nonempty: "ordered_labels py txt categories \<noteq> []"
proof -
  have "length (ordered_labels py txt categories) = 4"
    by (simp add: ordered_labels_def categories_def)
  then show ?thesis by auto
qed

lemma classify_text_categories:
  assumes "\<forall>i. 0 \<le> py_random py i \<and> py_random py i < 1"
  shows "\<exists>scores sq. classify_text py txt classifier_kwargs
           = Inr (Label_Scores (ordered_labels py txt categories) scores sq)
         \<and> scores \<noteq> [] \<and> 0 \<le> scores ! 0 \<and> scores ! 0 \<le> 1"
proof -
  let ?sc = "category_scores py txt categories"
  let ?ord = "ordered_labels py txt categories"
  let ?total = "sum_list (map (weight ?sc) ?ord)"
  have pos: "\<forall>x \<in> set (map (weight ?sc) ?ord). 0 < x"
    using weight_pos[OF category_scores_ge_1[OF assms]] by simp
  have ne: "map (weight ?sc) ?ord \<noteq> []" using ordered_labels_nonempty by simp
  have total: "0 < ?total" using sum_list_pos_real[OF ne pos] .
  have "weight ?sc (?ord ! 0) \<in> set (map (weight ?sc) ?ord)"
    using ordered_labels_nonempty[of py "txt"] by (cases ?ord) auto
  from member_le_sum_list_real[OF this pos] have le: "weight ?sc (?ord ! 0) \<le> ?total" .
  have nn: "0 \<le> weight ?sc (?ord ! 0)"
    using weight_pos[OF category_scores_ge_1[OF assms], of "txt" categories "?ord ! 0"] by simp
  have first: "map (\<lambda>label. weight ?sc label / ?total) ?ord ! 0 = weight ?sc (?ord ! 0) / ?total"
    using ordered_labels_nonempty[of py "txt"] by (cases ?ord) auto
  have "classify_text py txt classifier_kwargs
          = Inr (Label_Scores ?ord (map (\<lambda>label. weight ?sc label / ?total) ?ord)
                  (if length txt > 100 then take 100 txt @ u ''...'' else txt))"
    using total by (simp add: classify_text_def classifier_kwargs_def Let_def)
  moreover have "map (\<lambda>label. weight ?sc label / ?total) ?ord \<noteq> []"
    using ordered_labels_nonempty by simp
  moreover have "0 \<le> map (\<lambda>label. weight ?sc label / ?total) ?ord ! 0"
    unfolding first using nn total by simp
  moreover have "map (\<lambda>label. weight ?sc label / ?total) ?ord ! 0 \<le> 1"
    unfolding first using le total by simp
  ultimately show ?thesis by blast
qed

lemma pipeline_call_classifier:
  "pipeline_call py (get_transformer_model (u ''zero-shot-classification'') language)
     = classify_text py"
  by (rule ext, rule ext) (simp add: pipeline_call_def get_transformer_model_def u_def)

lemma pipeline_call_summarizer:
  "pipeline_call py (get_transformer_model (u ''summarization'') language) txt kw
     = Inr (generate_summary py txt
              (case kw_max_length kw of Some n \<Rightarrow> n | None \<Rightarrow> 300)
              (case kw_min_length kw of Some n \<Rightarrow> n | None \<Rightarrow> 150))"
  by (simp add: pipeline_call_def get_transformer_model_def)

lemma explanations_keys:
  "\<forall>c \<in> set categories. map_of explanations c \<noteq> None \<and> map_of intent_keywords c \<noteq> None"
  by (simp add: categories_def explanations_def intent_keywords_def u_def)

lemma classify_intent_with_total:
  assumes "fst (intent_and_score classifier (doc_text d)) \<in> set categories"
  shows "\<exists>e. classify_intent_with py classifier d language
            = Inr (fst (intent_and_score classifier (doc_text d)), e)"
proof -
  obtain intent score where eq: "intent_and_score classifier (doc_text d) = (intent, score)"
    by (cases "intent_and_score classifier (doc_text d)")
  with assms have "intent \<in> set categories" by simp
  with explanations_keys obtain m ds kws where
    "map_of explanations intent = Some (m, ds)" "map_of intent_keywords intent = Some kws"
    by fastforce
  then show ?thesis by (simp add: classify_intent_with_def eq)
qed

lemma hd_ordered_in: "hd (ordered_labels py txt categories) \<in> set categories"
  using ordered_labels_nonempty[of py "txt"] hd_in_set ordered_labels_set by blast

lemma intent_and_score_classify_text:
  assumes "\<forall>i. 0 \<le> py_random py i \<and> py_random py i < 1"
  shows "fst (intent_and_score (classify_text py) txt)
           = hd (ordered_labels py (take 1000 txt) categories)
       \<and> 0 \<le> snd (intent_and_score (classify_text py) txt)
       \<and> snd (intent_and_score (classify_text py) txt) \<le> 1"
proof -
  from classify_text_categories[OF assms, of "take 1000 txt"] obtain scores sq where
    r: "classify_text py (take 1000 txt) classifier_kwargs
          = Inr (Label_Scores (ordered_labels py (take 1000 txt) categories) scores sq)"
    and s: "scores \<noteq> []" "0 \<le> scores ! 0" "scores ! 0 \<le> 1" by blast
  show ?thesis
    using s ordered_labels_nonempty[of py "take 1000 txt"]
    by (simp add: intent_and_score_def r hd_conv_nth)
qed

lemma classify_intent_label_and_score_aux:
  assumes "\<forall>i. 0 \<le> py_random py i \<and> py_random py i < 1"
  shows "\<exists>e. classify_intent py d language
               = Inr (hd (ordered_labels py (take 1000 (doc_text d)) categories), e)"
proof -
  note a = intent_and_score_classify_text[OF assms, of "doc_text d"]
  have "fst (intent_and_score (classify_text py) (doc_text d)) \<in> set categories"
    using a hd_ordered_in by simp
  from classify_intent_with_total[OF this, of py language] a show ?thesis
    unfolding classify_intent_def pipeline_call_classifier by simp
qed


text \<open>
  The classifier and the explanation have keyword tables of their own: the
  classifier counts \<open>complaint\<close>, which the explanation does not look for.
\<close>

lemma keyword_tables_differ:
  "u ''complaint'' \<in> set (dict_get keyword_categories (u ''Complaint'') []) \<and>
   u ''complaint'' \<notin> set (dict_get intent_keywords (u ''Complaint'') [])"
  by (simp add: keyword_categories_def intent_keywords_def dict_get_def u_def)

section \<open>The explanation\<close>

lemma digits_chars: "set (digits n) \<subseteq> {48 ..< 58}"
proof (induction n rule: digits.induct)
  case (1 n)
  show ?case
  proof (cases "n < 10")
    case True
    then show ?thesis by (subst digits.simps) simp
  next
    case False
    have "n mod 10 < 10" by simp
    then have "48 + n mod 10 \<in> {48 ..< 58}" by simp
    with False 1 show ?thesis by (subst digits.simps) simp
  qed
qed

lemma format_2f_chars: "set (format_2f x) \<subseteq> set (u ''-.0123456789'')"
proof -
  have d: "{48 ..< 58} \<subseteq> set (u ''-.0123456789'')"
  proof
    fix c :: nat assume "c \<in> {48 ..< 58}"
    then have "c = 48 \<or> c = 49 \<or> c = 50 \<or> c = 51 \<or> c = 52 \<or> c = 53 \<or> c = 54 \<or> c = 55
      \<or> c = 56 \<or> c = 57" by (simp only: atLeastLessThan_iff) arith
    then show "c \<in> set (u ''-.0123456789'')" by (auto simp: u_def)
  qed
  have m: "48 + k mod 10 \<in> {48 ..< 58}" for k :: nat
  proof -
    have "k mod 10 < 10" by simp
    then show ?thesis by simp
  qed
  have "set (digits k) \<subseteq> set (u ''-.0123456789'')" for k
    using digits_chars d by blast
  moreover have "48 + k mod 10 \<in> set (u ''-.0123456789'')" for k :: nat
    using m d by blast
  moreover have "set (u ''-'') \<subseteq> set (u ''-.0123456789'')" "set (u ''.'') \<subseteq> set (u ''-.0123456789'')"
    by (simp_all add: u_def)
  ultimately show ?thesis
    unfolding format_2f_def Let_def by (auto simp del: digits.simps)
qed

lemma no_K_table:
  "\<forall>(l, m, ds) \<in> set explanations. 75 \<notin> set m \<and> (\<forall>d \<in> set ds. 75 \<notin> set d)"
  by (simp add: explanations_def u_def)

lemma no_K_confidence:
  "75 \<notin> set (confidence_phrases l) \<and> 75 \<notin> set (confidence_explanations l)"
  by (cases l) (simp_all add: u_def)

lemma no_K_parts:
  assumes "map_of explanations intent = Some (main, details)"
    and "\<forall>x. set (py_format_2f py x) \<subseteq> set (u ''-.0123456789'')"
  shows "75 \<notin> set (concat (explanation_parts py main details score []))"
proof -
  from assms(1) have "(intent, main, details) \<in> set explanations" by (rule map_of_SomeD)
  with no_K_table have t: "75 \<notin> set main" "\<forall>d \<in> set details. 75 \<notin> set d" by auto
  have "75 \<notin> set (u ''-.0123456789'')" by (simp add: u_def)
  with assms(2) have f: "75 \<notin> set (py_format_2f py score)" by blast
  have l: "75 \<notin> set (u '' The document has been classified '')" "75 \<notin> set (u '' ('')"
    "75 \<notin> set (u '').'')" "75 \<notin> set (u ''Detailed analysis:'')" "75 \<notin> set (u '' '')"
    by (simp_all add: u_def)
  show ?thesis
    using t f l no_K_confidence[of "confidence_level score"]
    by (auto simp: explanation_parts_def Let_def bullet_glyph_def)
qed

lemma keywords_part_contained:
  assumes "found \<noteq> []"
  shows "contains (concat (explanation_parts py main details score found))
           ([10] @ u ''Keywords detected: '' @ join (u '', '') (take 5 found) @ [10])"
proof -
  let ?K = "[10] @ u ''Keywords detected: '' @ join (u '', '') (take 5 found)"
  let ?level = "confidence_level score"
  let ?A = "[main @ u '' The document has been classified '' @ confidence_phrases ?level
              @ u '' ('' @ py_format_2f py score @ u '').'',
            [10] @ u ''Detailed analysis:'']
           @ map (\<lambda>detail. [10, bullet_glyph] @ u '' '' @ detail) details"
  have "concat (explanation_parts py main details score found)
          = concat ?A @ (?K @ [10]) @ confidence_explanations ?level"
    using assms by (simp add: explanation_parts_def Let_def)
  then show ?thesis unfolding contains_def sublist_def by (metis append.assoc)
qed


section \<open>The entry points read the text only\<close>

lemma doc_text_process_document [simp]: "doc_text (process_document nlp txt language) = txt"
  by (simp add: process_document_def Let_def)

lemma pipeline_summarizer_language:
  "pipeline_call py (get_transformer_model (u ''summarization'') l1)
     = pipeline_call py (get_transformer_model (u ''summarization'') l2)"
  by (rule ext, rule ext) (simp add: pipeline_call_def get_transformer_model_def)

lemma get_summary_with_text:
  "doc_text d1 = doc_text d2 \<Longrightarrow>
   get_summary_with py S d1 l1 = get_summary_with py S d2 l2"
  by (simp add: get_summary_with_def)

lemma classify_intent_with_text:
  "doc_text d1 = doc_text d2 \<Longrightarrow>
   classify_intent_with py C d1 l1 = classify_intent_with py C d2 l2"
  by (simp add: classify_intent_with_def)

lemma mock_paragraph_summary:
  "paragraph_summary (pipeline_call py (get_transformer_model (u ''summarization'') language))
      para 150 30 = summary_text py para 75 15"
  by (simp add: paragraph_summary_def pipeline_call_summarizer summarizer_kwargs_def
        generate_summary_def summary_text_of_def dict_get_def)


section \<open>Evaluation of the examples\<close>

lemmas regex_defs = re_match_def re_search_def re_split_def re_sub_def Plus_def one_of_def
  bullet_glyph_def paragraph_separator_def sentence_separator_def numbered_marker_def
  glyph_marker_def cleanup_marker_def percentage_def money_def year_def large_number_def
  statistic_def split_paragraphs_def split_sentences_def re_split_from.simps re_sub_from.simps

lemmas string_defs = u_def ascii_py_def strip_def lstrip_def contains_def enumerate_list_def
  any_in_def append_new_def sublist_code(3)

lemmas bullet_defs = indicators_def topic_sentence_indicators_def clean_sentence_def
  phase1_sentence_def phase1_paragraph_def phase1_def phase2_sentence_def phase2_paragraph_def
  phase3_sentence_def phase3_paragraph_def phase4_sentence_def phase4_paragraph_def
  collect_bullets_def category_prefix_def enhance_bullets_def extract_bullet_points_def

lemma ascii_random: "\<forall>i. 0 \<le> py_random ascii_py i \<and> py_random ascii_py i < 1"
  by (simp add: ascii_py_def)

lemma example_doc_text:
  "doc_text example_doc = u ''- This point is long enough. Is this a question, or is it not?''"
  by (simp add: example_doc_def process_document_def u_def)

lemma example_paragraphs:
  "split_paragraphs ascii_py (doc_text example_doc) = [doc_text example_doc]"
  unfolding example_doc_text by (simp add: regex_defs string_defs)

lemma example_sentences:
  "split_sentences ascii_py (doc_text example_doc)
     = [u ''- This point is long enough.'', u ''Is this a question, or is it not?'']"
  unfolding example_doc_text by (simp add: regex_defs string_defs)

lemma example_phase1:
  "phase1 ascii_py [doc_text example_doc] = [u ''- This point is long enough.'']"
  unfolding phase1_def foldl.simps phase1_paragraph_def example_sentences
  unfolding example_doc_text by (simp add: regex_defs string_defs bullet_defs)

lemma numbered_doc_text: "doc_text numbered_doc = u ''1) This item is long enough.''"
  by (simp add: numbered_doc_def process_document_def u_def)

lemma numbered_paragraphs:
  "split_paragraphs ascii_py (doc_text numbered_doc) = [doc_text numbered_doc]"
  unfolding numbered_doc_text by (simp add: regex_defs string_defs)

lemma numbered_sentences:
  "split_sentences ascii_py (doc_text numbered_doc) = [doc_text numbered_doc]"
  unfolding numbered_doc_text by (simp add: regex_defs string_defs)

lemma example_collect:
  "collect_bullets ascii_py (doc_text example_doc)
     = [u ''- This point is long enough.'', u ''Is this a question, or is it not?'']"
  unfolding collect_bullets_def Let_def example_paragraphs example_phase1
  unfolding foldl.simps phase2_paragraph_def phase3_paragraph_def phase4_paragraph_def
    example_sentences
  unfolding example_doc_text by (simp add: regex_defs string_defs bullet_defs)

lemma example_bullets:
  "extract_bullet_points ascii_py example_doc language
     = [u ''Introduction: - This point is long enough.'',
        u ''Question: Is this a question, or is it not?'']"
  unfolding extract_bullet_points_def example_collect
  by (simp add: regex_defs string_defs enhance_bullets_def category_prefix_def)

lemma example_raw_text:
  "map raw_text (extract_bullet_points ascii_py example_doc language)
     = [u ''- This point is long enough.'', u ''Is this a question, or is it not?'']"
  unfolding raw_text_extract example_collect by simp


lemma request_doc_text:
  "doc_text request_doc = u ''Please provide the requested documents by Friday. Kindly respond at your earliest convenience.''"
  by (simp add: request_doc_def process_document_def u_def)

lemma request_length: "length (doc_text request_doc) = 94"
  by (simp add: request_doc_text u_def)

lemma request_sample: "take 1000 (doc_text request_doc) = doc_text request_doc"
  by (simp add: request_doc_text u_def)

lemma request_lower:
  "py_lower ascii_py (doc_text request_doc) = u ''please provide the requested documents by friday. kindly respond at your earliest convenience.''"
  unfolding request_doc_text by (simp add: u_def ascii_py_def)

lemma request_count: "count_keywords ascii_py (doc_text request_doc) = [(u ''Request'', 3)]"
  unfolding count_keywords_def Let_def request_lower
  by (simp add: keyword_categories_def u_def contains_def sublist_code(3))

lemma request_ordered:
  "ordered_labels ascii_py (doc_text request_doc) categories
     = map u [''Request'', ''Complaint'', ''Update/Notification'', ''Appreciation'']"
  unfolding ordered_labels_def category_scores_def Let_def request_count
  by (simp add: categories_def dict_get_def u_def)

lemma request_intent_and_score:
  "intent_and_score (classify_text ascii_py) (doc_text request_doc) = (u ''Request'', 10 / 11)"
  unfolding intent_and_score_def Let_def request_sample
  by (simp add: classify_text_def classifier_kwargs_def Let_def request_ordered
        category_scores_def request_count request_length weight_def u_def)

lemma request_found:
  "filter (\<lambda>word. contains (py_lower ascii_py (take 2000 (doc_text request_doc))) word)
      (map u [''please'', ''request'', ''kindly'', ''would you'', ''could you'', ''need'',
              ''require'', ''provide''])
     = map u [''please'', ''request'', ''kindly'', ''provide'']"
proof -
  have t: "take 2000 (doc_text request_doc) = doc_text request_doc"
    by (simp add: request_length)
  show ?thesis
    unfolding t request_lower by (simp add: u_def contains_def sublist_code(3))
qed

lemma request_keywords:
  "map_of intent_keywords (u ''Request'')
     = Some (map u [''please'', ''request'', ''kindly'', ''would you'', ''could you'', ''need'',
                    ''require'', ''provide''])"
  by (simp add: intent_keywords_def u_def)

lemma plain_doc_text: "doc_text plain_doc = u ''hello''"
  by (simp add: plain_doc_def process_document_def u_def)

lemma plain_lower: "py_lower ascii_py (doc_text plain_doc) = u ''hello''"
  unfolding plain_doc_text by (simp add: u_def ascii_py_def)

lemma long_doc_text: "doc_text long_doc = replicate 1001 97"
  by (simp add: long_doc_def)

lemma long_no_space: "\<forall>c \<in> set (replicate 1001 97). \<not> py_isspace ascii_py c"
  by (simp add: ascii_py_def)

lemma long_paragraphs:
  "split_paragraphs ascii_py (replicate 1001 97) = [replicate 1001 97]"
  by (rule split_paragraphs_single) simp

lemma long_filter:
  "filter (\<lambda>para. length (strip ascii_py para) > 200) (split_paragraphs ascii_py (replicate 1001 97))
     = [replicate 1001 97]"
  by (simp add: long_paragraphs strip_no_space[OF long_no_space])

lemma long_summary_text:
  "summary_text ascii_py (replicate 1001 97) 75 15 = replicate 75 97 @ u ''...''"
  by (simp add: summary_text_def Let_def split_sentences_single[OF long_no_space]
        summary_sentences_def strip_no_space[OF long_no_space] connect_sentences_def
        slice_to_def)



lemma bad_doc_text: "doc_text bad_doc = u ''This is bad and terrible service.''"
  by (simp add: bad_doc_def)

lemma bad_length: "length (doc_text bad_doc) = 33"
  by (simp add: bad_doc_text u_def)

lemma bad_sample: "take 1000 (doc_text bad_doc) = doc_text bad_doc"
  by (simp add: bad_length)

lemma bad_lower:
  "py_lower ascii_py (doc_text bad_doc) = u ''this is bad and terrible service.''"
  unfolding bad_doc_text by (simp add: u_def ascii_py_def)

lemma bad_count: "count_keywords ascii_py (doc_text bad_doc) = [(u ''Complaint'', 2)]"
  unfolding count_keywords_def Let_def bad_lower
  by (simp add: keyword_categories_def u_def contains_def sublist_code(3))

lemma bad_ordered:
  "ordered_labels ascii_py (doc_text bad_doc) categories
     = map u [''Complaint'', ''Request'', ''Update/Notification'', ''Appreciation'']"
  unfolding ordered_labels_def category_scores_def Let_def bad_count
  by (simp add: categories_def dict_get_def u_def)

lemma bad_intent_and_score:
  "intent_and_score (classify_text ascii_py) (doc_text bad_doc) = (u ''Complaint'', 20 / 23)"
  unfolding intent_and_score_def Let_def bad_sample
  by (simp add: classify_text_def classifier_kwargs_def Let_def bad_ordered
        category_scores_def bad_count bad_length weight_def u_def)

lemma complaint_keywords:
  "map_of intent_keywords (u ''Complaint'')
     = Some (map u [''issue'', ''problem'', ''concerned'', ''dissatisfied'', ''disappointed'',
                    ''fix'', ''resolve'', ''failing''])"
  by (simp add: intent_keywords_def u_def)

lemma bad_found:
  "found_keywords ascii_py
      [u ''issue'', u ''problem'', u ''concerned'', u ''dissatisfied'', u ''disappointed'',
       u ''fix'', u ''resolve'', u ''failing''] (doc_text bad_doc) = []"
proof -
  have t: "take 2000 (doc_text bad_doc) = doc_text bad_doc" by (simp add: bad_length)
  show ?thesis
    unfolding found_keywords_def t bad_lower by (simp add: u_def contains_def sublist_code(3))
qed

lemma ascii_format: "\<forall>x. set (py_format_2f ascii_py x) \<subseteq> set (u ''-.0123456789'')"
  using format_2f_chars by (simp add: ascii_py_def)

section \<open>Bullet extraction\<close>

text \<open>
  C1: for every document text, \<open>extract_bullet_points\<close> returns at most 20 bullets, and
  the text of every bullet after its category prefix is a contiguous part of the
  document text.
\<close>

theorem bullets_at_most_20_and_substrings:
  "length (extract_bullet_points py d language) \<le> 20 \<and>
   (\<forall>b \<in> set (extract_bullet_points py d language). sublist (raw_text b) (doc_text d))"
proof
  show "length (extract_bullet_points py d language) \<le> 20"
    by (simp add: extract_bullet_points_def)
  have "set (map raw_text (extract_bullet_points py d language))
          \<subseteq> set (collect_bullets py (doc_text d))"
    unfolding raw_text_extract by (rule set_take_subset)
  with collect_bullets_inv[of "doc_text d" py]
  show "\<forall>b \<in> set (extract_bullet_points py d language). sublist (raw_text b) (doc_text d)"
    by (auto simp: bullets_inv_def)
qed

theorem bullets_at_most_20_and_substrings_witness:
  "u ''Question: Is this a question, or is it not?''
     \<in> set (extract_bullet_points ascii_py example_doc (u ''English'')) \<and>
   sublist (raw_text (u ''Question: Is this a question, or is it not?'')) (doc_text example_doc)"
  using bullets_at_most_20_and_substrings[of ascii_py example_doc "u ''English''"]
  by (simp add: example_bullets)

text \<open>
  C2: for every document text, no two bullets that \<open>extract_bullet_points\<close> returns have
  the same text after their category prefix, whichever phase produced them.
\<close>

theorem bullets_raw_text_distinct:
  "distinct (map raw_text (extract_bullet_points py d language))"
  unfolding raw_text_extract
  using collect_bullets_inv[of "doc_text d" py] by (simp add: bullets_inv_def)

theorem bullets_raw_text_distinct_witness:
  "distinct [u ''- This point is long enough.'', u ''Is this a question, or is it not?'']"
  using bullets_raw_text_distinct[of ascii_py example_doc "u ''English''"]
  unfolding example_raw_text .

text \<open>
  C5: in the first phase every accepted sentence that begins with a numbered-list
  marker or a bullet glyph should be stored without that marker. The pattern of the
  substitution asks for a \<open>]\<close> after the marker, so the marker stays: the sentence
  \<open>- This point is long enough.\<close>, accepted for its glyph, and the sentence
  \<open>1) This item is long enough.\<close>, accepted for its number, are stored as they are.
\<close>

theorem phase1_keeps_leading_marker:
  "re_match (glyph_marker ascii_py) (u ''- This point is long enough.'') \<and>
   phase1 ascii_py (split_paragraphs ascii_py (doc_text example_doc))
     = [u ''- This point is long enough.''] \<and>
   re_match (numbered_marker ascii_py) (u ''1) This item is long enough.'') \<and>
   phase1 ascii_py (split_paragraphs ascii_py (doc_text numbered_doc))
     = [u ''1) This item is long enough.'']"
proof -
  have "re_match (glyph_marker ascii_py) (u ''- This point is long enough.'')"
    by (simp add: regex_defs string_defs)
  moreover have "re_match (numbered_marker ascii_py) (u ''1) This item is long enough.'')"
    by (simp add: regex_defs string_defs)
  moreover have "phase1 ascii_py [doc_text numbered_doc] = [u ''1) This item is long enough.'']"
    unfolding phase1_def foldl.simps phase1_paragraph_def numbered_sentences
    unfolding numbered_doc_text by (simp add: regex_defs string_defs bullet_defs)
  ultimately show ?thesis
    by (simp add: example_paragraphs example_phase1 numbered_paragraphs)
qed


section \<open>Intent classification\<close>

text \<open>
  C3: \<open>classify_intent\<close> always returns a label among the four categories, and the score
  it computes (the variable \<open>score\<close>, which it prints in the explanation) lies in the
  interval from 0 to 1; when the classifier raises, the label is the first category
  and the score is 0.5. The draws of \<open>random.random()\<close> lie in the half-open interval
  from 0 to 1.
\<close>

theorem classify_intent_label_and_score:
  assumes "\<forall>i. 0 \<le> py_random py i \<and> py_random py i < 1"
  shows "(\<exists>e. classify_intent py d language
               = Inr (fst (intent_and_score (classify_text py) (doc_text d)), e)) \<and>
         fst (intent_and_score (classify_text py) (doc_text d)) \<in> set categories \<and>
         0 \<le> snd (intent_and_score (classify_text py) (doc_text d)) \<and>
         snd (intent_and_score (classify_text py) (doc_text d)) \<le> 1 \<and>
         (\<forall>classifier x. classifier (take 1000 (doc_text d)) classifier_kwargs = Inl x \<longrightarrow>
            intent_and_score classifier (doc_text d) = (u ''Complaint'', 1 / 2) \<and>
            (\<exists>e. classify_intent_with py classifier d language = Inr (u ''Complaint'', e)))"
proof -
  note a = intent_and_score_classify_text[OF assms, of "doc_text d"]
  have label: "fst (intent_and_score (classify_text py) (doc_text d)) \<in> set categories"
    using a hd_ordered_in by simp
  have "\<exists>e. classify_intent py d language
               = Inr (fst (intent_and_score (classify_text py) (doc_text d)), e)"
    unfolding classify_intent_def pipeline_call_classifier
    using label by (rule classify_intent_with_total)
  moreover have "intent_and_score classifier (doc_text d) = (u ''Complaint'', 1 / 2) \<and>
      (\<exists>e. classify_intent_with py classifier d language = Inr (u ''Complaint'', e))"
    if "classifier (take 1000 (doc_text d)) classifier_kwargs = Inl x" for classifier x
  proof -
    have eq: "intent_and_score classifier (doc_text d) = (u ''Complaint'', 1 / 2)"
      using that by (simp add: intent_and_score_def categories_def)
    have "fst (intent_and_score classifier (doc_text d)) \<in> set categories"
      by (simp add: eq categories_def)
    from classify_intent_with_total[OF this, of py language] eq show ?thesis by simp
  qed
  ultimately show ?thesis using a label by blast
qed

theorem classify_intent_label_and_score_witness:
  "(\<forall>i. 0 \<le> py_random ascii_py i \<and> py_random ascii_py i < 1) \<and>
   (\<exists>e. classify_intent ascii_py request_doc (u ''English'') = Inr (u ''Request'', e)) \<and>
   (0::real) \<le> 10 / 11 \<and> (10::real) / 11 \<le> 1"
  using classify_intent_label_and_score[OF ascii_random, of request_doc "u ''English''"]
  unfolding request_intent_and_score by (simp add: ascii_random)

text \<open>
  C4: when no keyword of any category occurs in the lower-cased sample, every
  category is given an integer score between 1 and 10.
\<close>

theorem fallback_scores_between_1_and_10:
  assumes "\<forall>i. 0 \<le> py_random py i \<and> py_random py i < 1"
    and "\<forall>(c, kws) \<in> set keyword_categories. \<forall>k \<in> set kws. \<not> contains (py_lower py txt) k"
  shows "\<forall>c \<in> set categories.
           \<exists>v. map_of (category_scores py txt categories) c = Some v \<and> 1 \<le> v \<and> v \<le> 10"
proof -
  have scores: "category_scores py txt categories = random_scores py categories"
    by (simp add: category_scores_def count_keywords_empty[OF assms(2)])
  have b: "\<And>i. 1 \<le> 1 + py_int (py_random py i * 9) \<and> 1 + py_int (py_random py i * 9) \<le> 10"
    using draw_bounds[of "py_random py i" for i] assms(1) by (smt (verit))
  show ?thesis
    unfolding scores random_scores_categories
    using b by (simp add: categories_def u_def)
qed

theorem fallback_scores_between_1_and_10_witness:
  "\<not> contains (py_lower ascii_py (doc_text plain_doc)) (u ''issue'') \<and>
   (\<exists>v. map_of (category_scores ascii_py (doc_text plain_doc) categories) (u ''Request'') = Some v
        \<and> 1 \<le> v \<and> v \<le> 10)"
proof -
  have h: "\<forall>(c, kws) \<in> set keyword_categories.
      \<forall>k \<in> set kws. \<not> contains (py_lower ascii_py (doc_text plain_doc)) k"
    unfolding plain_lower by (simp add: keyword_categories_def u_def contains_def sublist_code(3))
  have c: "u ''Request'' \<in> set categories" by (simp add: categories_def)
  have "\<not> contains (py_lower ascii_py (doc_text plain_doc)) (u ''issue'')"
    unfolding plain_lower by (simp add: u_def contains_def sublist_code(3))
  with fallback_scores_between_1_and_10[OF ascii_random h] c show ?thesis by blast
qed

text \<open>
  C6: the classifier orders the four categories by descending score, categories of
  equal score staying in the order Complaint, Request, Update/Notification,
  Appreciation, and \<open>classify_intent\<close> returns the first of them as the label.
\<close>

theorem labels_ranked_by_score_ties_in_declaration_order:
  assumes "\<forall>i. 0 \<le> py_random py i \<and> py_random py i < 1"
  shows "(let sample = take 1000 (doc_text d);
              score = (\<lambda>label. dict_get (category_scores py sample categories) label 0);
              ordered = ordered_labels py sample categories
          in sorted_wrt (\<lambda>a b. score a \<ge> score b) ordered \<and>
             set ordered = set categories \<and> distinct ordered \<and>
             (\<forall>k. filter (\<lambda>label. score label = k) ordered
                    = filter (\<lambda>label. score label = k) categories) \<and>
             (\<exists>e. classify_intent py d language = Inr (hd ordered, e)))"
proof -
  let ?sample = "take 1000 (doc_text d)"
  let ?score = "\<lambda>label. dict_get (category_scores py ?sample categories) label 0"
  let ?ordered = "ordered_labels py ?sample categories"
  have ord: "?ordered = sort_key (\<lambda>label. - ?score label) categories"
    by (simp add: ordered_labels_def)
  have "sorted (map (\<lambda>label. - ?score label) ?ordered)"
    unfolding ord by (rule sorted_sort_key)
  then have s: "sorted_wrt (\<lambda>a b. ?score a \<ge> ?score b) ?ordered"
    by (simp add: sorted_map)
  have st: "filter (\<lambda>label. ?score label = k) ?ordered
              = filter (\<lambda>label. ?score label = k) categories" for k
    using sort_key_stable[of "\<lambda>label. - ?score label" "- k" categories]
    unfolding ord by simp
  have dist: "distinct ?ordered" unfolding ord by (simp add: categories_distinct)
  from classify_intent_label_and_score_aux[OF assms, of d language]
  have "\<exists>e. classify_intent py d language = Inr (hd ?ordered, e)" .
  with s st dist show ?thesis by (simp add: Let_def)
qed

theorem labels_ranked_by_score_ties_in_declaration_order_witness:
  "(\<forall>i. 0 \<le> py_random ascii_py i \<and> py_random ascii_py i < 1) \<and>
   ordered_labels ascii_py (take 1000 (doc_text request_doc)) categories
     = map u [''Request'', ''Complaint'', ''Update/Notification'', ''Appreciation''] \<and>
   (\<exists>e. classify_intent ascii_py request_doc (u ''English'') = Inr (u ''Request'', e))"
  using labels_ranked_by_score_ties_in_declaration_order[OF ascii_random, of request_doc "u ''English''"]
  unfolding Let_def request_sample request_ordered by (simp add: ascii_random)

text \<open>
  C9, amended: the keyword list is the label's entry in \<open>intent_keywords\<close>, the table of
  \<open>classify_intent\<close>, not the classifier's table. When a term of that list occurs in the
  lower-cased first 2000 characters of the text, the explanation has a line
  \<open>Keywords detected:\<close> that lists the first five matched terms in the order of the
  list; when none occurs, the explanation has no such line. The rendering of the
  score consists of digits, a sign and a decimal point.
\<close>

theorem keywords_detected_line:
  assumes "classify_intent_with py classifier d language = Inr (intent, explanation)"
    and "\<forall>x. set (py_format_2f py x) \<subseteq> set (u ''-.0123456789'')"
  shows "\<exists>keywords. map_of intent_keywords intent = Some keywords \<and>
     (let found = filter (\<lambda>word. contains (py_lower py (take 2000 (doc_text d))) word) keywords
      in (found \<noteq> [] \<longrightarrow>
            contains explanation
              ([10] @ u ''Keywords detected: '' @ join (u '', '') (take 5 found) @ [10])) \<and>
         (found = [] \<longrightarrow> \<not> contains explanation (u ''Keywords detected:'')))"
proof -
  obtain i score where eq: "intent_and_score classifier (doc_text d) = (i, score)"
    by (cases "intent_and_score classifier (doc_text d)")
  from assms(1) obtain main details kws where
    e: "map_of explanations intent = Some (main, details)"
    and k: "map_of intent_keywords intent = Some kws"
    and x: "explanation = concat (explanation_parts py main details score
                                   (found_keywords py kws (doc_text d)))"
    by (auto simp: classify_intent_with_def eq split: option.splits)
  let ?found = "filter (\<lambda>word. contains (py_lower py (take 2000 (doc_text d))) word) kws"
  have f: "found_keywords py kws (doc_text d) = ?found"
    by (simp add: found_keywords_def)
  have pos: "contains explanation
      ([10] @ u ''Keywords detected: '' @ join (u '', '') (take 5 ?found) @ [10])"
    if "?found \<noteq> []"
    unfolding x f using that by (rule keywords_part_contained)
  have neg: "\<not> contains explanation (u ''Keywords detected:'')" if "?found = []"
  proof
    assume "contains explanation (u ''Keywords detected:'')"
    then have "set (u ''Keywords detected:'') \<subseteq> set explanation"
      unfolding contains_def by (rule set_mono_sublist)
    moreover have "75 \<in> set (u ''Keywords detected:'')" by (simp add: u_def)
    ultimately have "75 \<in> set explanation" by blast
    with no_K_parts[OF e assms(2), of score] show False
      unfolding x f that by simp
  qed
  from k pos neg show ?thesis by (simp add: Let_def)
qed

theorem keywords_detected_line_witness:
  "(\<forall>x. set (py_format_2f ascii_py x) \<subseteq> set (u ''-.0123456789'')) \<and>
   (\<exists>e. classify_intent ascii_py request_doc (u ''English'') = Inr (u ''Request'', e) \<and>
        contains e ([10] @ u ''Keywords detected: please, request, kindly, provide'' @ [10]))"
proof -
  have fmt: "\<forall>x. set (py_format_2f ascii_py x) \<subseteq> set (u ''-.0123456789'')"
    using format_2f_chars by (simp add: ascii_py_def)
  from classify_intent_label_and_score_aux[OF ascii_random, of request_doc "u ''English''"]
  obtain e where e: "classify_intent ascii_py request_doc (u ''English'') = Inr (u ''Request'', e)"
    unfolding request_sample request_ordered by auto
  have j: "join (u '', '') (take 5 (map u [''please'', ''request'', ''kindly'', ''provide'']))
             = u ''please, request, kindly, provide''"
    by (simp add: u_def)
  from keywords_detected_line[OF e[unfolded classify_intent_def] fmt]
  obtain kws where kws: "map_of intent_keywords (u ''Request'') = Some kws"
    and c: "let found = filter (\<lambda>word. contains (py_lower ascii_py
                (take 2000 (doc_text request_doc))) word) kws
      in (found \<noteq> [] \<longrightarrow>
            contains e ([10] @ u ''Keywords detected: '' @ join (u '', '') (take 5 found) @ [10])) \<and>
         (found = [] \<longrightarrow> \<not> contains e (u ''Keywords detected:''))"
    by blast
  from kws have "kws = map u [''please'', ''request'', ''kindly'', ''would you'', ''could you'',
      ''need'', ''require'', ''provide'']"
    unfolding request_keywords by simp
  with c have "contains e ([10] @ u ''Keywords detected: '' @
      join (u '', '') (take 5 (map u [''please'', ''request'', ''kindly'', ''provide''])) @ [10])"
    unfolding Let_def by (simp only: request_found) simp
  then have "contains e ([10] @ u ''Keywords detected: please, request, kindly, provide'' @ [10])"
    unfolding j by (simp add: u_def)
  with fmt e show ?thesis by blast
qed


text \<open>
  C9, read with the classifier's keyword table (\<open>keyword_categories\<close>, the table that
  chooses the label), does not hold: the text \<open>This is bad and terrible service.\<close> is
  labelled Complaint through \<open>bad\<close> and \<open>terrible\<close>, the term \<open>bad\<close> occurs in its
  lower-cased first 2000 characters, and the explanation has no line
  \<open>Keywords detected:\<close>, since the explanation looks for the terms of \<open>intent_keywords\<close>.
\<close>

theorem keywords_line_by_classifier_table_counterexample:
  "u ''bad'' \<in> set (dict_get keyword_categories (u ''Complaint'') []) \<and>
   contains (py_lower ascii_py (take 2000 (doc_text bad_doc))) (u ''bad'') \<and>
   (case classify_intent ascii_py bad_doc (u ''English'') of
      Inr (label, explanation) \<Rightarrow>
        label = u ''Complaint'' \<and> \<not> contains explanation (u ''Keywords detected:'')
    | Inl e \<Rightarrow> False)"
proof -
  have a: "u ''bad'' \<in> set (dict_get keyword_categories (u ''Complaint'') [])"
    by (simp add: keyword_categories_def dict_get_def u_def)
  have t: "take 2000 (doc_text bad_doc) = doc_text bad_doc" by (simp add: bad_length)
  have b: "contains (py_lower ascii_py (take 2000 (doc_text bad_doc))) (u ''bad'')"
    unfolding t bad_lower by (simp add: u_def contains_def sublist_code(3))
  have "u ''Complaint'' \<in> set categories" by (simp add: categories_def)
  with explanations_keys obtain m ds where
    e: "map_of explanations (u ''Complaint'') = Some (m, ds)" by fastforce
  have r: "classify_intent ascii_py bad_doc (u ''English'')
             = Inr (u ''Complaint'', concat (explanation_parts ascii_py m ds (20 / 23) []))"
    unfolding classify_intent_def pipeline_call_classifier classify_intent_with_def Let_def
      bad_intent_and_score
    by (simp add: e complaint_keywords bad_found)
  have "\<not> contains (concat (explanation_parts ascii_py m ds (20 / 23) []))
           (u ''Keywords detected:'')"
  proof
    assume "contains (concat (explanation_parts ascii_py m ds (20 / 23) []))
              (u ''Keywords detected:'')"
    then have "set (u ''Keywords detected:'')
                 \<subseteq> set (concat (explanation_parts ascii_py m ds (20 / 23) []))"
      unfolding contains_def by (rule set_mono_sublist)
    moreover have "75 \<in> set (u ''Keywords detected:'')" by (simp add: u_def)
    ultimately have "75 \<in> set (concat (explanation_parts ascii_py m ds (20 / 23) []))"
      by blast
    with no_K_parts[OF e ascii_format, of "20 / 23"] show False by simp
  qed
  with a b show ?thesis unfolding r by simp
qed

section \<open>Summary\<close>



text \<open>
  C8: for a document of more than 1000 characters with exactly one paragraph of
  more than 200 characters after trimming, \<open>get_summary\<close> returns the summary of that
  paragraph (made with the halved budget, or its fallback) as it is.
\<close>

theorem single_paragraph_summary_unchanged:
  assumes "length (doc_text d) > 1000"
    and "filter (\<lambda>para. length (strip py para) > 200) (split_paragraphs py (doc_text d)) = [para]"
  shows "get_summary_with py summarizer d language
           = Inr (case summarizer para (summarizer_kwargs 75 15) of
                    Inr result \<Rightarrow> summary_text_of result (take 100 para @ u ''...'')
                  | Inl e \<Rightarrow> take 100 para @ u ''...'') \<and>
         get_summary py d language = Inr (summary_text py para 75 15)"
proof -
  have g: "get_summary_with py S d language = Inr (paragraph_summary S para 150 30)" for S
    using assms by (simp add: get_summary_with_def Let_def)
  have "paragraph_summary summarizer para 150 30
          = (case summarizer para (summarizer_kwargs 75 15) of
               Inr result \<Rightarrow> summary_text_of result (take 100 para @ u ''...'')
             | Inl e \<Rightarrow> take 100 para @ u ''...'')"
    by (simp add: paragraph_summary_def)
  with g[of summarizer] have "get_summary_with py summarizer d language
           = Inr (case summarizer para (summarizer_kwargs 75 15) of
                    Inr result \<Rightarrow> summary_text_of result (take 100 para @ u ''...'')
                  | Inl e \<Rightarrow> take 100 para @ u ''...'')" by simp
  moreover have "get_summary py d language = Inr (summary_text py para 75 15)"
    unfolding get_summary_def g mock_paragraph_summary ..
  ultimately show ?thesis ..
qed

theorem single_paragraph_summary_unchanged_witness:
  "length (doc_text long_doc) > 1000 \<and>
   filter (\<lambda>para. length (strip ascii_py para) > 200)
          (split_paragraphs ascii_py (doc_text long_doc)) = [replicate 1001 97] \<and>
   get_summary ascii_py long_doc (u ''English'') = Inr (replicate 75 97 @ u ''...'')"
proof -
  have len: "length (doc_text long_doc) > 1000" by (simp add: long_doc_text)
  have f: "filter (\<lambda>para. length (strip ascii_py para) > 200)
          (split_paragraphs ascii_py (doc_text long_doc)) = [replicate 1001 97]"
    unfolding long_doc_text by (rule long_filter)
  from single_paragraph_summary_unchanged[OF len f, of failing_summarizer "u ''English''"]
  have "get_summary ascii_py long_doc (u ''English'') = Inr (replicate 75 97 @ u ''...'')"
    unfolding long_summary_text by simp
  with len f show ?thesis by simp
qed


section \<open>The language argument\<close>

text \<open>
  C10: for every document text, the summary, the bullets and the classification
  are the same for any two values of the language argument (the random draws being
  the same).
\<close>

theorem language_does_not_change_results:
  "get_summary py (process_document nlp txt l1) l1
     = get_summary py (process_document nlp txt l2) l2 \<and>
   extract_bullet_points py (process_document nlp txt l1) l1
     = extract_bullet_points py (process_document nlp txt l2) l2 \<and>
   classify_intent py (process_document nlp txt l1) l1
     = classify_intent py (process_document nlp txt l2) l2"
proof -
  have "get_summary py (process_document nlp txt l1) l1
     = get_summary py (process_document nlp txt l2) l2"
    unfolding get_summary_def pipeline_summarizer_language[of py l1 l2]
    by (rule get_summary_with_text) simp
  moreover have "extract_bullet_points py (process_document nlp txt l1) l1
     = extract_bullet_points py (process_document nlp txt l2) l2"
    by (simp add: extract_bullet_points_def)
  moreover have "classify_intent py (process_document nlp txt l1) l1
     = classify_intent py (process_document nlp txt l2) l2"
    unfolding classify_intent_def pipeline_call_classifier
    by (rule classify_intent_with_text) simp
  ultimately show ?thesis by blast
qed

theorem language_does_not_change_results_witness:
  "extract_bullet_points ascii_py
      (process_document (\<lambda>language txt. ())
         (u ''- This point is long enough. Is this a question, or is it not?'') (u ''Hindi''))
      (u ''Hindi'')
     = [u ''Introduction: - This point is long enough.'',
        u ''Question: Is this a question, or is it not?'']"
  using language_does_not_change_results[of ascii_py "\<lambda>language txt. ()"
      "u ''- This point is long enough. Is this a question, or is it not?''"
      "u ''Hindi''" "u ''English''"]
  unfolding example_doc_def[symmetric] by (simp add: example_bullets)

end
